theory Spec2Isabelle
  imports Complex_Main
begin

section \<open>pnmdump: the pgm codec, the scale parser and the pixel retrieval functions\<close>

text \<open>
  A shallow embedding of \<^verbatim>\<open>pnmdumpmain.c\<close>. Every function of the conversion path
  is a HOL function of the same name. The converter struct is passed in and returned
  updated, the two \<^verbatim>\<open>FILE\<close> streams are passed explicitly (the unread bytes with the
  end-of-file indicator for the input, the bytes written for the output), a \<^verbatim>\<open>return
  false\<close> is the value \<open>Inl (Reported m)\<close> with the message printed on stderr, and an
  execution for which ISO C defines no behaviour is the value \<open>Inl (Undefined u)\<close>.
\<close>

subsection \<open>Outcomes\<close>

datatype PgmType = UNKNOWN | P2 | P5

datatype ScaleType = NEAREST_NEIGHBOR | BILINEAR

text \<open>The messages the program prints on stderr before it returns false.\<close>

datatype message =
    NoSuchFile
  | CorruptedInputFile
  | InputNotInFormat PgmType
  | BadScalarFormat
  | ScaledInconsistently
  | ScalarNotPositive
  | OutputTooLarge

text \<open>The places where the program leaves the behaviour defined by ISO C.\<close>

datatype undefined_behaviour =
    IndexOutOfArray int int
  | SignedOverflow
  | IntegerUnrepresentable
  | BufferOverrun
  | DivisionByZero
  | NullPointer

datatype failure = Reported message | Undefined undefined_behaviour

definition bnd :: "failure + 'a \<Rightarrow> ('a \<Rightarrow> failure + 'b) \<Rightarrow> failure + 'b" where
  "bnd m f = (case m of Inl e \<Rightarrow> Inl e | Inr x \<Rightarrow> f x)"

subsection \<open>The type int\<close>

definition INT_MIN :: int where
  "INT_MIN = - 2147483648"

definition INT_MAX :: int where
  "INT_MAX = 2147483647"

definition in_int :: "int \<Rightarrow> bool" where
  "in_int n \<longleftrightarrow> INT_MIN \<le> n \<and> n \<le> INT_MAX"

text \<open>An arithmetic result that does not fit the type is undefined (C11 6.5p5).\<close>

definition c_int :: "int \<Rightarrow> failure + int" where
  "c_int n = (if in_int n then Inr n else Inl (Undefined SignedOverflow))"

text \<open>Integer division truncates towards zero (C11 6.5.5p6).\<close>

definition c_div :: "int \<Rightarrow> int \<Rightarrow> failure + int" where
  "c_div a b =
     (if b = 0 then Inl (Undefined DivisionByZero)
      else c_int (sgn a * sgn b * (\<bar>a\<bar> div \<bar>b\<bar>)))"

subsection \<open>The type double\<close>

text \<open>
  An IEEE 754 binary64 value: a finite number (the rational it denotes; \<open>Num 0\<close> is
  the positive zero), the negative zero, an infinity or a NaN. Every operation computes
  the exact rational result and rounds it to the nearest representable value, ties to
  the even significand.
\<close>

datatype double = Num rat | NegZero | PInf | NInf | NaN

definition pow2 :: "int \<Rightarrow> rat" where
  "pow2 e = (if 0 \<le> e then 2 ^ nat e else 1 / 2 ^ nat (- e))"

function expo_hi :: "rat \<Rightarrow> int" where
  "expo_hi x = (if 2 \<le> x then expo_hi (x / 2) + 1 else 0)"
  by pat_completeness auto
termination
proof (relation "measure (\<lambda>x. nat \<lfloor>x\<rfloor>)")
  show "wf (measure (\<lambda>x::rat. nat \<lfloor>x\<rfloor>))"
    by simp
next
  fix x :: rat
  assume h: "2 \<le> x"
  have "x / 2 + 1 \<le> x"
    using h by simp
  then have "\<lfloor>x / 2 + 1\<rfloor> \<le> \<lfloor>x\<rfloor>"
    by (rule floor_mono)
  then have "\<lfloor>x / 2\<rfloor> < \<lfloor>x\<rfloor>"
    by simp
  moreover have "0 < \<lfloor>x\<rfloor>"
    using h by simp
  ultimately show "(x / 2, x) \<in> measure (\<lambda>x. nat \<lfloor>x\<rfloor>)"
    by simp
qed

function expo_lo :: "rat \<Rightarrow> int" where
  "expo_lo x = (if 0 < x \<and> x < 1 then expo_lo (2 * x) - 1 else 0)"
  by pat_completeness auto
termination
proof (relation "measure (\<lambda>x. nat \<lceil>1 / x\<rceil>)")
  show "wf (measure (\<lambda>x::rat. nat \<lceil>1 / x\<rceil>))"
    by simp
next
  fix x :: rat
  assume h: "0 < x \<and> x < 1"
  define y where "y = 1 / x"
  have y1: "1 < y"
    using h by (simp add: y_def)
  have e: "1 / (2 * x) = y / 2"
    by (simp add: y_def)
  have n2: "2 \<le> \<lceil>y\<rceil>"
    using y1 by linarith
  have "y \<le> of_int \<lceil>y\<rceil>"
    by simp
  moreover have "(2::rat) \<le> of_int \<lceil>y\<rceil>"
    using n2 by linarith
  ultimately have "y / 2 \<le> of_int \<lceil>y\<rceil> - 1"
    by linarith
  then have "\<lceil>y / 2\<rceil> < \<lceil>y\<rceil>"
    by (simp add: ceiling_less_iff)
  then have "nat \<lceil>1 / (2 * x)\<rceil> < nat \<lceil>1 / x\<rceil>"
    unfolding e y_def [symmetric] using n2 by linarith
  then show "(2 * x, x) \<in> measure (\<lambda>x. nat \<lceil>1 / x\<rceil>)"
    by simp
qed

declare expo_hi.simps [simp del] expo_lo.simps [simp del]

text \<open>The exponent of a positive rational: \<open>2 ^ expo x \<le> x < 2 ^ (expo x + 1)\<close>.\<close>

definition expo :: "rat \<Rightarrow> int" where
  "expo x = (if 1 \<le> x then expo_hi x else expo_lo x)"

definition round_even :: "rat \<Rightarrow> int" where
  "round_even x =
     (if x - of_int \<lfloor>x\<rfloor> < 1 / 2 then \<lfloor>x\<rfloor>
      else if 1 / 2 < x - of_int \<lfloor>x\<rfloor> then \<lfloor>x\<rfloor> + 1
      else if even \<lfloor>x\<rfloor> then \<lfloor>x\<rfloor>
      else \<lfloor>x\<rfloor> + 1)"

text \<open>
  Rounding to binary64: 53 significant bits, the exponent of the unit in the last place
  not below \<open>-1074\<close> (subnormal numbers), overflow to an infinity from \<open>2 ^ 1024\<close> on,
  and a result that rounds to zero keeps its sign.
\<close>

definition ulp :: "rat \<Rightarrow> rat" where
  "ulp a = pow2 (max (expo a) (- 1022) - 52)"

definition nearest :: "rat \<Rightarrow> rat" where
  "nearest a = of_int (round_even (a / ulp a)) * ulp a"

definition fl :: "rat \<Rightarrow> double" where
  "fl x =
     (if x = 0 then Num 0
      else if pow2 1024 \<le> nearest \<bar>x\<bar> then (if 0 < x then PInf else NInf)
      else if nearest \<bar>x\<bar> = 0 then (if 0 < x then Num 0 else NegZero)
      else Num (if 0 < x then nearest \<bar>x\<bar> else - nearest \<bar>x\<bar>))"

fun sign_bit :: "double \<Rightarrow> bool" where
  "sign_bit (Num q) = (q < 0)"
| "sign_bit NegZero = True"
| "sign_bit PInf = False"
| "sign_bit NInf = True"
| "sign_bit NaN = False"

fun is_finite :: "double \<Rightarrow> bool" where
  "is_finite (Num q) = True"
| "is_finite NegZero = True"
| "is_finite d = False"

text \<open>The value of a finite double (both zeros are 0).\<close>

fun val :: "double \<Rightarrow> rat" where
  "val (Num q) = q"
| "val d = 0"

definition zero_of :: "bool \<Rightarrow> double" where
  "zero_of s = (if s then NegZero else Num 0)"

definition inf_of :: "bool \<Rightarrow> double" where
  "inf_of s = (if s then NInf else PInf)"

text \<open>Conversion of an int: every 32-bit integer is a binary64 value.\<close>

definition double_of_int :: "int \<Rightarrow> double" where
  "double_of_int n = Num (of_int n)"

definition dneg :: "double \<Rightarrow> double" where
  "dneg d =
     (case d of Num q \<Rightarrow> (if q = 0 then NegZero else Num (- q)) | NegZero \<Rightarrow> Num 0
      | PInf \<Rightarrow> NInf | NInf \<Rightarrow> PInf | NaN \<Rightarrow> NaN)"

definition dadd :: "double \<Rightarrow> double \<Rightarrow> double" where
  "dadd a b =
     (if a = NaN \<or> b = NaN then NaN
      else if \<not> is_finite a then (if \<not> is_finite b \<and> a \<noteq> b then NaN else a)
      else if \<not> is_finite b then b
      else if val a + val b = 0 then zero_of (sign_bit a \<and> sign_bit b)
      else fl (val a + val b))"

definition dsub :: "double \<Rightarrow> double \<Rightarrow> double" where
  "dsub a b = dadd a (dneg b)"

definition dmul :: "double \<Rightarrow> double \<Rightarrow> double" where
  "dmul a b =
     (let s = (sign_bit a \<noteq> sign_bit b)
      in if a = NaN \<or> b = NaN then NaN
         else if \<not> is_finite a then (if is_finite b \<and> val b = 0 then NaN else inf_of s)
         else if \<not> is_finite b then (if val a = 0 then NaN else inf_of s)
         else if val a * val b = 0 then zero_of s
         else fl (val a * val b))"

definition ddiv :: "double \<Rightarrow> double \<Rightarrow> double" where
  "ddiv a b =
     (let s = (sign_bit a \<noteq> sign_bit b)
      in if a = NaN \<or> b = NaN then NaN
         else if \<not> is_finite a then (if is_finite b then inf_of s else NaN)
         else if \<not> is_finite b then zero_of s
         else if val b = 0 then (if val a = 0 then NaN else inf_of s)
         else if val a = 0 then zero_of s
         else fl (val a / val b))"

text \<open>The comparisons: false whenever an operand is a NaN.\<close>

definition dless :: "double \<Rightarrow> double \<Rightarrow> bool" where
  "dless a b =
     (if a = NaN \<or> b = NaN then False
      else if a = PInf \<or> b = NInf then False
      else if a = NInf \<or> b = PInf then True
      else val a < val b)"

definition dle :: "double \<Rightarrow> double \<Rightarrow> bool" where
  "dle a b =
     (if a = NaN \<or> b = NaN then False
      else if a = NInf \<or> b = PInf then True
      else if a = PInf \<or> b = NInf then False
      else val a \<le> val b)"

text \<open>
  Conversion to int discards the fractional part; when the integral part is not an int
  the behaviour is undefined (C11 6.3.1.4).
\<close>

definition trunc :: "rat \<Rightarrow> int" where
  "trunc q = (if 0 \<le> q then \<lfloor>q\<rfloor> else \<lceil>q\<rceil>)"

definition int_of_double :: "double \<Rightarrow> failure + int" where
  "int_of_double d =
     (if is_finite d \<and> in_int (trunc (val d)) then Inr (trunc (val d))
      else Inl (Undefined IntegerUnrepresentable))"

subsection \<open>Characters\<close>

definition isspace :: "char \<Rightarrow> bool" where
  "isspace c \<longleftrightarrow>
     c = CHR '' '' \<or> c = CHR 0x09 \<or> c = CHR 0x0A \<or> c = CHR 0x0B \<or> c = CHR 0x0C \<or> c = CHR 0x0D"

definition isdigit :: "char \<Rightarrow> bool" where
  "isdigit c \<longleftrightarrow> 48 \<le> (of_char c :: nat) \<and> (of_char c :: nat) \<le> 57"

definition isoctal :: "char \<Rightarrow> bool" where
  "isoctal c \<longleftrightarrow> 48 \<le> (of_char c :: nat) \<and> (of_char c :: nat) \<le> 55"

definition isalpha :: "char \<Rightarrow> bool" where
  "isalpha c \<longleftrightarrow>
     (65 \<le> (of_char c :: nat) \<and> (of_char c :: nat) \<le> 90) \<or>
     (97 \<le> (of_char c :: nat) \<and> (of_char c :: nat) \<le> 122)"

definition tolower :: "char \<Rightarrow> char" where
  "tolower c =
     (if 65 \<le> (of_char c :: nat) \<and> (of_char c :: nat) \<le> 90
      then char_of ((of_char c :: nat) + 32) else c)"

definition isxdigit :: "char \<Rightarrow> bool" where
  "isxdigit c \<longleftrightarrow>
     isdigit c \<or> (97 \<le> (of_char (tolower c) :: nat) \<and> (of_char (tolower c) :: nat) \<le> 102)"

definition digit_val :: "char \<Rightarrow> int" where
  "digit_val c =
     (if isdigit c then int (of_char c) - 48 else int (of_char (tolower c)) - 87)"

text \<open>The number a digit string denotes in a base.\<close>

definition number :: "int \<Rightarrow> string \<Rightarrow> int" where
  "number b ds = foldl (\<lambda>a c. a * b + digit_val c) 0 ds"

subsection \<open>Input streams and the conversions of scanf\<close>

text \<open>
  An input stream is the bytes not read yet and the end-of-file indicator, which a read
  sets when it finds no byte left. A conversion reads the longest sequence of bytes that
  is a matching input or a prefix of one (C11 7.21.6.2p9); the first byte after it stays
  unread.
\<close>

type_synonym stream = "string \<times> bool"

datatype 'a conv = Converted 'a stream | MatchingFailure stream | InputFailure stream

definition EOF :: int where
  "EOF = - 1"

definition feof :: "stream \<Rightarrow> bool" where
  "feof s = snd s"

definition fgetc :: "stream \<Rightarrow> int \<times> stream" where
  "fgetc s = (case fst s of [] \<Rightarrow> (EOF, ([], True)) | c # r \<Rightarrow> (int (of_char c), (r, snd s)))"

definition read_while :: "(char \<Rightarrow> bool) \<Rightarrow> stream \<Rightarrow> string \<times> stream" where
  "read_while p s =
     (takeWhile p (fst s),
      (case dropWhile p (fst s) of [] \<Rightarrow> ([], True) | c # r \<Rightarrow> (c # r, snd s)))"

definition skip_space :: "stream \<Rightarrow> stream" where
  "skip_space s = snd (read_while isspace s)"

definition read_sign :: "stream \<Rightarrow> bool \<times> stream" where
  "read_sign s =
     (case fst s of
        [] \<Rightarrow> (False, s)
      | c # r \<Rightarrow>
          if c = CHR ''-'' then (True, (r, snd s))
          else if c = CHR ''+'' then (False, (r, snd s))
          else (False, s))"

text \<open>An ordinary character of the format: the next byte has to be this character.\<close>

definition match_char :: "char \<Rightarrow> stream \<Rightarrow> unit conv" where
  "match_char x s =
     (case fst s of
        [] \<Rightarrow> InputFailure ([], True)
      | c # r \<Rightarrow> if c = x then Converted () (r, snd s) else MatchingFailure s)"

text \<open>\<^verbatim>\<open>%s\<close>: white space is skipped, then the bytes up to the next white space.\<close>

definition scan_s :: "stream \<Rightarrow> string conv" where
  "scan_s s =
     (let s1 = skip_space s
      in if fst s1 = [] then InputFailure s1
         else case read_while (\<lambda>c. \<not> isspace c) s1 of (tok, s2) \<Rightarrow> Converted tok s2)"

text \<open>\<^verbatim>\<open>%[^\n]\<close>: a non-empty sequence of bytes other than the newline.\<close>

definition scan_not_newline :: "stream \<Rightarrow> string conv" where
  "scan_not_newline s =
     (if fst s = [] then InputFailure ([], True)
      else case read_while (\<lambda>c. c \<noteq> CHR 0x0A) s of
             (tok, s2) \<Rightarrow> if tok = [] then MatchingFailure s2 else Converted tok s2)"

text \<open>
  \<^verbatim>\<open>%i\<close>: white space is skipped, then an optional sign and an integer in the form of
  \<^verbatim>\<open>strtol\<close> with base 0: \<^verbatim>\<open>0x\<close> and hexadecimal digits, \<^verbatim>\<open>0\<close> and octal digits, or
  decimal digits. The result is the integer denoted, of any size.
\<close>

definition scan_integer :: "bool \<Rightarrow> stream \<Rightarrow> int conv" where
  "scan_integer neg s =
     (case fst s of
        [] \<Rightarrow> MatchingFailure ([], True)
      | c # r \<Rightarrow>
          if c = CHR ''0'' \<and> r \<noteq> [] \<and> tolower (hd r) = CHR ''x''
          then case read_while isxdigit (tl r, snd s) of
                 (ds, s1) \<Rightarrow>
                   if ds = [] then MatchingFailure s1
                   else Converted (if neg then - number 16 ds else number 16 ds) s1
          else if c = CHR ''0''
          then case read_while isoctal s of
                 (ds, s1) \<Rightarrow> Converted (if neg then - number 8 ds else number 8 ds) s1
          else case read_while isdigit s of
                 (ds, s1) \<Rightarrow>
                   if ds = [] then MatchingFailure s1
                   else Converted (if neg then - number 10 ds else number 10 ds) s1)"

definition scan_i :: "stream \<Rightarrow> int conv" where
  "scan_i s =
     (if fst (skip_space s) = [] then InputFailure (skip_space s)
      else case read_sign (skip_space s) of (neg, s1) \<Rightarrow> scan_integer neg s1)"

text \<open>
  \<^verbatim>\<open>%lf\<close>: white space is skipped, then an optional sign and a number in the form of
  \<^verbatim>\<open>strtod\<close>: a decimal or a hexadecimal floating constant, an infinity or a NaN. The
  result is the number denoted, rounded to binary64.
\<close>

definition make_double :: "bool \<Rightarrow> rat \<Rightarrow> double" where
  "make_double neg q = (if q = 0 then zero_of neg else fl (if neg then - q else q))"

definition scale_by :: "rat \<Rightarrow> int \<Rightarrow> rat" where
  "scale_by b e = (if 0 \<le> e then b ^ nat e else 1 / b ^ nat (- e))"

text \<open>The digits, with the optional radix point, and the exponent behind a marker.\<close>

definition read_fraction :: "(char \<Rightarrow> bool) \<Rightarrow> stream \<Rightarrow> string \<times> string \<times> stream" where
  "read_fraction p s =
     (case read_while p s of
        (ip, s1) \<Rightarrow>
          (case fst s1 of
             [] \<Rightarrow> (ip, [], s1)
           | c # r \<Rightarrow>
               if c = CHR ''.'' then (case read_while p (r, snd s1) of (fp, s2) \<Rightarrow> (ip, fp, s2))
               else (ip, [], s1)))"

definition read_exponent :: "char \<Rightarrow> stream \<Rightarrow> int conv" where
  "read_exponent mark s =
     (case fst s of
        [] \<Rightarrow> Converted 0 s
      | c # r \<Rightarrow>
          if tolower c = mark
          then case read_sign (r, snd s) of
                 (neg, s1) \<Rightarrow>
                   (case read_while isdigit s1 of
                      (ds, s2) \<Rightarrow>
                        if ds = [] then MatchingFailure s2
                        else Converted (if neg then - number 10 ds else number 10 ds) s2)
          else Converted 0 s)"

definition scan_float :: "(char \<Rightarrow> bool) \<Rightarrow> int \<Rightarrow> char \<Rightarrow> rat \<Rightarrow> bool \<Rightarrow> stream \<Rightarrow> double conv" where
  "scan_float p b mark eb neg s =
     (case read_fraction p s of
        (ip, fp, s1) \<Rightarrow>
          if ip = [] \<and> fp = [] then MatchingFailure s1
          else case read_exponent mark s1 of
                 Converted e s2 \<Rightarrow>
                   Converted
                     (make_double neg
                        (of_int (number b (ip @ fp)) / of_int b ^ length fp * scale_by eb e)) s2
               | MatchingFailure s2 \<Rightarrow> MatchingFailure s2
               | InputFailure s2 \<Rightarrow> InputFailure s2)"

text \<open>The longest prefix of the input that is a prefix of a word, letter case ignored.\<close>

fun match_word :: "string \<Rightarrow> string \<Rightarrow> bool \<Rightarrow> nat \<times> stream" where
  "match_word [] cs e = (0, (cs, e))"
| "match_word (w # ws) [] e = (0, ([], True))"
| "match_word (w # ws) (c # cs) e =
     (if tolower c = w then (case match_word ws cs e of (n, s) \<Rightarrow> (Suc n, s))
      else (0, (c # cs, e)))"

definition scan_inf :: "bool \<Rightarrow> stream \<Rightarrow> double conv" where
  "scan_inf neg s =
     (case match_word ''infinity'' (fst s) (snd s) of
        (n, s1) \<Rightarrow> if n = 3 \<or> n = 8 then Converted (inf_of neg) s1 else MatchingFailure s1)"

definition close_paren :: "stream \<Rightarrow> double conv" where
  "close_paren s =
     (case match_char (CHR '')'') s of
        Converted u s1 \<Rightarrow> Converted NaN s1
      | MatchingFailure s1 \<Rightarrow> MatchingFailure s1
      | InputFailure s1 \<Rightarrow> MatchingFailure s1)"

definition scan_nan :: "stream \<Rightarrow> double conv" where
  "scan_nan s =
     (case match_word ''nan'' (fst s) (snd s) of
        (n, s1) \<Rightarrow>
          if n \<noteq> 3 then MatchingFailure s1
          else if fst s1 \<noteq> [] \<and> hd (fst s1) = CHR ''(''
          then close_paren
                 (snd (read_while (\<lambda>x. isdigit x \<or> isalpha x \<or> x = CHR ''_'')
                         (tl (fst s1), snd s1)))
          else Converted NaN s1)"

definition scan_lf :: "stream \<Rightarrow> double conv" where
  "scan_lf s =
     (let s1 = skip_space s
      in if fst s1 = [] then InputFailure s1
         else
           case read_sign s1 of
             (neg, s2) \<Rightarrow>
               (case fst s2 of
                  [] \<Rightarrow> MatchingFailure ([], True)
                | c # r \<Rightarrow>
                    if c = CHR ''0'' \<and> r \<noteq> [] \<and> tolower (hd r) = CHR ''x''
                    then scan_float isxdigit 16 (CHR ''p'') 2 neg (tl r, snd s2)
                    else if isdigit c \<or> c = CHR ''.''
                    then scan_float isdigit 10 (CHR ''e'') 10 neg s2
                    else if tolower c = CHR ''i'' then scan_inf neg s2
                    else if tolower c = CHR ''n'' then scan_nan s2
                    else MatchingFailure s2))"

subsection \<open>The conversions of printf\<close>

function decimal :: "nat \<Rightarrow> string" where
  "decimal n =
     (if n < 10 then [char_of (48 + n)] else decimal (n div 10) @ [char_of (48 + n mod 10)])"
  by pat_completeness auto
termination
  by (relation "measure (\<lambda>n. n)") auto

declare decimal.simps [simp del]

text \<open>\<^verbatim>\<open>%i\<close> and \<^verbatim>\<open>%c\<close> (the argument converted to unsigned char).\<close>

definition print_i :: "int \<Rightarrow> string" where
  "print_i n = (if n < 0 then CHR ''-'' # decimal (nat (- n)) else decimal (nat n))"

definition print_c :: "int \<Rightarrow> string" where
  "print_c n = [char_of n]"

subsection \<open>Structs\<close>

text \<open>
  The stream of a \<^verbatim>\<open>PgmFile\<close> is passed beside the converter and its name belongs to
  the file system, so the record keeps the four fields of the pgm header.
\<close>

record PgmFile =
  width :: int
  height :: int
  maxDataValue :: int
  type :: PgmType

record ScaleArgs =
  scale :: string
  scaleType :: ScaleType
  isEnlarge :: bool
  hScale :: double
  wScale :: double

text \<open>The values the function pointer \<^verbatim>\<open>getData\<close> takes in \<^verbatim>\<open>main\<close> and in the parser.\<close>

datatype getData_ptr =
    NULL
  | To_GetData
  | To_GetReflectedData
  | To_GetRotated90Data
  | To_GetScaledNnData
  | To_GetScaledUpBlData
  | To_GetScaledDownBoxData

record ConversionArgs =
  getData :: getData_ptr
  isSwapWidthHeight :: bool
  isScale :: bool

text \<open>\<^verbatim>\<open>sArgs\<close> is a pointer that \<^verbatim>\<open>main\<close> leaves null for the conversions without a scale.\<close>

record PgmConverter =
  iF :: PgmFile
  oF :: PgmFile
  cArgs :: ConversionArgs
  sArgs :: "ScaleArgs option"
  data :: "int \<Rightarrow> int \<Rightarrow> int"

text \<open>
  \<^verbatim>\<open>int data[512][512]\<close>: a subscript outside \<open>0 .. 511\<close> in either dimension is
  undefined (C11 6.5.6p8), for a read as for a write. The program never checks one.
\<close>

definition load :: "(int \<Rightarrow> int \<Rightarrow> int) \<Rightarrow> int \<Rightarrow> int \<Rightarrow> failure + int" where
  "load d r c =
     (if 0 \<le> r \<and> r < 512 \<and> 0 \<le> c \<and> c < 512 then Inr (d r c)
      else Inl (Undefined (IndexOutOfArray r c)))"

definition store :: "(int \<Rightarrow> int \<Rightarrow> int) \<Rightarrow> int \<Rightarrow> int \<Rightarrow> int \<Rightarrow> failure + (int \<Rightarrow> int \<Rightarrow> int)" where
  "store d r c v =
     (if 0 \<le> r \<and> r < 512 \<and> 0 \<le> c \<and> c < 512 then Inr (d(r := (d r)(c := v)))
      else Inl (Undefined (IndexOutOfArray r c)))"

subsection \<open>Enum functions\<close>

text \<open>The null pointer that \<^verbatim>\<open>PgmTypeToStr\<close> returns for \<^verbatim>\<open>UNKNOWN\<close> is \<open>None\<close>.\<close>

definition PgmTypeToStr :: "PgmType \<Rightarrow> string option" where
  "PgmTypeToStr t = (case t of P2 \<Rightarrow> Some ''P2'' | P5 \<Rightarrow> Some ''P5'' | UNKNOWN \<Rightarrow> None)"

definition StrToPgmType :: "string \<Rightarrow> PgmType" where
  "StrToPgmType str = (if str = ''P2'' then P2 else if str = ''P5'' then P5 else UNKNOWN)"

subsection \<open>Parsing the scale factor\<close>

text \<open>
  The four \<^verbatim>\<open>sscanf\<close> calls of \<^verbatim>\<open>TryParseScalar\<close>. Each returns the number of values
  assigned (\<open>EOF\<close> when the text ends before the first one) with the variables it
  writes to; a variable that is not reached keeps the value passed in. \<open>n\<close> is the
  number of characters read when \<^verbatim>\<open>%n\<close> is reached.
\<close>

definition consumed :: "string \<Rightarrow> stream \<Rightarrow> int" where
  "consumed str s = int (length str) - int (length (fst s))"

definition sscanf_lf :: "string \<Rightarrow> double \<Rightarrow> int \<Rightarrow> int \<times> double \<times> int" where
  "sscanf_lf str x n =
     (case scan_lf (str, False) of
        Converted x1 s1 \<Rightarrow> (1, x1, consumed str s1)
      | MatchingFailure s1 \<Rightarrow> (0, x, n)
      | InputFailure s1 \<Rightarrow> (EOF, x, n))"

text \<open>A separator character and one more number, after \<open>k\<close> numbers have been assigned.\<close>

definition sep_lf :: "char \<Rightarrow> stream \<Rightarrow> double conv" where
  "sep_lf sep s =
     (case match_char sep s of
        Converted u s1 \<Rightarrow> scan_lf s1
      | MatchingFailure s1 \<Rightarrow> MatchingFailure s1
      | InputFailure s1 \<Rightarrow> InputFailure s1)"

definition sscanf_lf_sep_lf ::
  "char \<Rightarrow> string \<Rightarrow> double \<Rightarrow> double \<Rightarrow> int \<Rightarrow> int \<times> double \<times> double \<times> int" where
  "sscanf_lf_sep_lf sep str x y n =
     (case scan_lf (str, False) of
        Converted x1 s1 \<Rightarrow>
          (case sep_lf sep s1 of
             Converted y1 s2 \<Rightarrow> (2, x1, y1, consumed str s2)
           | MatchingFailure s2 \<Rightarrow> (1, x1, y, n)
           | InputFailure s2 \<Rightarrow> (1, x1, y, n))
      | MatchingFailure s1 \<Rightarrow> (0, x, y, n)
      | InputFailure s1 \<Rightarrow> (EOF, x, y, n))"

definition sscanf_fractions ::
  "string \<Rightarrow> double \<Rightarrow> double \<Rightarrow> double \<Rightarrow> double \<Rightarrow> int
     \<Rightarrow> int \<times> double \<times> double \<times> double \<times> double \<times> int" where
  "sscanf_fractions str x y a b n =
     (case scan_lf (str, False) of
        Converted x1 s1 \<Rightarrow>
          (case sep_lf (CHR ''/'') s1 of
             Converted y1 s2 \<Rightarrow>
               (case sep_lf (CHR ''x'') s2 of
                  Converted a1 s3 \<Rightarrow>
                    (case sep_lf (CHR ''/'') s3 of
                       Converted b1 s4 \<Rightarrow> (4, x1, y1, a1, b1, consumed str s4)
                     | MatchingFailure s4 \<Rightarrow> (3, x1, y1, a1, b, n)
                     | InputFailure s4 \<Rightarrow> (3, x1, y1, a1, b, n))
                | MatchingFailure s3 \<Rightarrow> (2, x1, y1, a, b, n)
                | InputFailure s3 \<Rightarrow> (2, x1, y1, a, b, n))
           | MatchingFailure s2 \<Rightarrow> (1, x1, y, a, b, n)
           | InputFailure s2 \<Rightarrow> (1, x1, y, a, b, n))
      | MatchingFailure s1 \<Rightarrow> (0, x, y, a, b, n)
      | InputFailure s1 \<Rightarrow> (EOF, x, y, a, b, n))"

text \<open>\<^verbatim>\<open>str[n]\<close> for \<open>0 \<le> n \<le> length str\<close>: the terminating null character at the end.\<close>

definition char_at :: "string \<Rightarrow> int \<Rightarrow> char" where
  "char_at str n = (if nat n < length str then str ! nat n else CHR 0x00)"

text \<open>
  The chain of the four formats: the factors \<open>(wScale, hScale)\<close> of the first format
  that assigns all its values and reaches the end of the text, \<open>None\<close> when there is
  none. The locals \<open>x y a b n\<close> start at 0 and are shared by the calls.
\<close>

definition scale_factors :: "string \<Rightarrow> (double \<times> double) option" where
  "scale_factors str =
     (case sscanf_lf str (Num 0) 0 of
        (r1, x1, n1) \<Rightarrow>
          if r1 = 1 \<and> char_at str n1 = CHR 0x00 then Some (x1, x1)
          else
            case sscanf_lf_sep_lf (CHR ''/'') str x1 (Num 0) n1 of
              (r2, x2, y2, n2) \<Rightarrow>
                if r2 = 2 \<and> char_at str n2 = CHR 0x00 then Some (ddiv x2 y2, ddiv x2 y2)
                else
                  case sscanf_lf_sep_lf (CHR ''x'') str x2 y2 n2 of
                    (r3, x3, y3, n3) \<Rightarrow>
                      if r3 = 2 \<and> char_at str n3 = CHR 0x00 then Some (x3, y3)
                      else
                        case sscanf_fractions str x3 y3 (Num 0) (Num 0) n3 of
                          (r4, x4, y4, a4, b4, n4) \<Rightarrow>
                            if r4 = 4 \<and> char_at str n4 = CHR 0x00
                            then Some (ddiv x4 y4, ddiv a4 b4)
                            else None)"

definition select_getData :: "ScaleArgs \<Rightarrow> ConversionArgs \<Rightarrow> ConversionArgs" where
  "select_getData sa ca =
     (if scaleType sa = BILINEAR
      then if dle (double_of_int 1) (wScale sa) \<and> dle (double_of_int 1) (hScale sa)
           then ca\<lparr>getData := To_GetScaledUpBlData\<rparr>
           else if dle (wScale sa) (double_of_int 1) \<and> dle (hScale sa) (double_of_int 1)
           then ca\<lparr>getData := To_GetScaledDownBoxData\<rparr>
           else ca
      else ca)"

text \<open>The two checks at the end of \<^verbatim>\<open>TryParseScalar\<close>.\<close>

definition check_factors :: "ScaleArgs \<Rightarrow> message option" where
  "check_factors sa =
     (if (dless (wScale sa) (double_of_int 1) \<and> dless (double_of_int 1) (hScale sa))
         \<or> (dless (double_of_int 1) (wScale sa) \<and> dless (hScale sa) (double_of_int 1))
      then Some ScaledInconsistently
      else if dle (wScale sa) (double_of_int 0) \<or> dle (hScale sa) (double_of_int 0)
      then Some ScalarNotPositive
      else None)"

definition set_factors :: "PgmConverter \<Rightarrow> ScaleArgs \<Rightarrow> failure + PgmConverter" where
  "set_factors c sa =
     (case check_factors sa of
        Some m \<Rightarrow> Inl (Reported m)
      | None \<Rightarrow> Inr (c\<lparr>sArgs := Some sa, cArgs := select_getData sa (cArgs c)\<rparr>))"

definition TryParseScalar :: "PgmConverter \<Rightarrow> failure + PgmConverter" where
  "TryParseScalar c =
     (case sArgs c of
        None \<Rightarrow> Inl (Undefined NullPointer)
      | Some sa \<Rightarrow>
          (case scale_factors (scale sa) of
             None \<Rightarrow> Inl (Reported BadScalarFormat)
           | Some (w, h) \<Rightarrow>
               set_factors c
                 (sa\<lparr>isEnlarge := (if char_at (scale sa) 0 = CHR 0x6D then False else True),
                     wScale := w, hScale := h\<rparr>)))"

subsection \<open>Reading the input pgm\<close>

text \<open>
  The \<^verbatim>\<open>fscanf\<close> call of \<^verbatim>\<open>TryReadPgmInfo\<close>, with the format
  \<^verbatim>\<open>"%s\n%*[^\n]\n%i %i\n%i\n"\<close>: white space in the format skips any white space of
  the input. The result is the number of values assigned, the text stored in
  \<^verbatim>\<open>typeStr\<close> (nine characters and the null fit in \<^verbatim>\<open>char typeStr[10]\<close>) and the file
  record with the fields assigned.
\<close>

definition scan_max :: "string \<Rightarrow> PgmFile \<Rightarrow> stream \<Rightarrow> failure + (int \<times> string \<times> PgmFile \<times> stream)" where
  "scan_max typeStr f s =
     (case scan_i (skip_space s) of
        Converted m s1 \<Rightarrow>
          if in_int m then Inr (4, typeStr, f\<lparr>maxDataValue := m\<rparr>, skip_space s1)
          else Inl (Undefined IntegerUnrepresentable)
      | MatchingFailure s1 \<Rightarrow> Inr (3, typeStr, f, s1)
      | InputFailure s1 \<Rightarrow> Inr (3, typeStr, f, s1))"

definition scan_height :: "string \<Rightarrow> PgmFile \<Rightarrow> stream \<Rightarrow> failure + (int \<times> string \<times> PgmFile \<times> stream)" where
  "scan_height typeStr f s =
     (case scan_i (skip_space s) of
        Converted h s1 \<Rightarrow>
          if in_int h then scan_max typeStr (f\<lparr>height := h\<rparr>) s1
          else Inl (Undefined IntegerUnrepresentable)
      | MatchingFailure s1 \<Rightarrow> Inr (2, typeStr, f, s1)
      | InputFailure s1 \<Rightarrow> Inr (2, typeStr, f, s1))"

definition scan_width :: "string \<Rightarrow> PgmFile \<Rightarrow> stream \<Rightarrow> failure + (int \<times> string \<times> PgmFile \<times> stream)" where
  "scan_width typeStr f s =
     (case scan_i (skip_space s) of
        Converted w s1 \<Rightarrow>
          if in_int w then scan_height typeStr (f\<lparr>width := w\<rparr>) s1
          else Inl (Undefined IntegerUnrepresentable)
      | MatchingFailure s1 \<Rightarrow> Inr (1, typeStr, f, s1)
      | InputFailure s1 \<Rightarrow> Inr (1, typeStr, f, s1))"

definition scan_comment :: "string \<Rightarrow> PgmFile \<Rightarrow> stream \<Rightarrow> failure + (int \<times> string \<times> PgmFile \<times> stream)" where
  "scan_comment typeStr f s =
     (case scan_not_newline (skip_space s) of
        Converted cm s1 \<Rightarrow> scan_width typeStr f s1
      | MatchingFailure s1 \<Rightarrow> Inr (1, typeStr, f, s1)
      | InputFailure s1 \<Rightarrow> Inr (1, typeStr, f, s1))"

definition fscanf_header :: "PgmFile \<Rightarrow> stream \<Rightarrow> failure + (int \<times> string \<times> PgmFile \<times> stream)" where
  "fscanf_header f s =
     (case scan_s s of
        Converted typeStr s1 \<Rightarrow>
          if 10 \<le> length typeStr then Inl (Undefined BufferOverrun)
          else scan_comment typeStr f s1
      | MatchingFailure s1 \<Rightarrow> Inr (0, [], f, s1)
      | InputFailure s1 \<Rightarrow> Inr (EOF, [], f, s1))"

definition adopt_type :: "PgmFile \<Rightarrow> PgmType \<Rightarrow> PgmFile" where
  "adopt_type f imageType =
     (if type f = UNKNOWN \<and> imageType \<noteq> UNKNOWN then f\<lparr>type := imageType\<rparr> else f)"

definition TryReadPgmInfo :: "PgmConverter \<Rightarrow> stream \<Rightarrow> failure + (PgmConverter \<times> stream)" where
  "TryReadPgmInfo c s =
     (case fscanf_header (iF c) s of
        Inl e \<Rightarrow> Inl e
      | Inr (n, typeStr, f, s1) \<Rightarrow>
          if 4 \<noteq> n then Inl (Reported CorruptedInputFile)
          else if type (adopt_type f (StrToPgmType typeStr)) \<noteq> StrToPgmType typeStr
          then Inl (Reported (InputNotInFormat (type (adopt_type f (StrToPgmType typeStr)))))
          else Inr (c\<lparr>iF := adopt_type f (StrToPgmType typeStr)\<rparr>, s1))"

text \<open>
  The \<^verbatim>\<open>fscanf\<close> call of \<^verbatim>\<open>TryReadPgmData\<close>, with the format \<^verbatim>\<open>"%i"\<close>: the value
  returned and the variable \<^verbatim>\<open>data\<close>. A number that is not an int is undefined
  (C11 7.21.6.2p10).
\<close>

definition fscanf_i :: "int \<Rightarrow> stream \<Rightarrow> failure + (int \<times> int \<times> stream)" where
  "fscanf_i dat s =
     (case scan_i s of
        Converted v s1 \<Rightarrow>
          if in_int v then Inr (1, v, s1) else Inl (Undefined IntegerUnrepresentable)
      | MatchingFailure s1 \<Rightarrow> Inr (0, dat, s1)
      | InputFailure s1 \<Rightarrow> Inr (EOF, dat, s1))"

text \<open>
  The first statement of the loop body: the next sample by the input type. For a type
  that is neither P2 nor P5 nothing is read and \<^verbatim>\<open>data\<close> keeps its value.
\<close>

definition read_sample :: "PgmType \<Rightarrow> int \<Rightarrow> stream \<Rightarrow> failure + (int \<times> stream)" where
  "read_sample t dat s =
     (case t of
        P2 \<Rightarrow>
          (case fscanf_i dat s of
             Inl e \<Rightarrow> Inl e
           | Inr (r, dat1, s1) \<Rightarrow>
               if r = 0 then Inl (Reported CorruptedInputFile) else Inr (dat1, s1))
      | P5 \<Rightarrow> Inr (fgetc s)
      | UNKNOWN \<Rightarrow> Inr (dat, s))"

text \<open>
  The state of the two loops: the variables \<^verbatim>\<open>data\<close> and \<^verbatim>\<open>dataCount\<close>, the array
  \<^verbatim>\<open>c->data\<close> and the stream. The inner loop ends at \<^verbatim>\<open>width\<close> or by the
  \<^verbatim>\<open>break\<close> at the end of the file; the outer loop then goes on with the next row.
\<close>

type_synonym read_state = "int \<times> int \<times> (int \<Rightarrow> int \<Rightarrow> int) \<times> stream"

function read_columns :: "PgmFile \<Rightarrow> int \<Rightarrow> int \<Rightarrow> read_state \<Rightarrow> failure + read_state" where
  "read_columns f row column (dat, cnt, arr, s) =
     (if column < width f
      then case read_sample (type f) dat s of
             Inl e \<Rightarrow> Inl e
           | Inr (dat1, s1) \<Rightarrow>
               if feof s1 then Inr (dat1, cnt, arr, s1)
               else if dat1 > maxDataValue f \<or> dat1 < 0 then Inl (Reported CorruptedInputFile)
               else (case store arr row column dat1 of
                       Inl e \<Rightarrow> Inl e
                     | Inr arr1 \<Rightarrow> read_columns f row (column + 1) (dat1, cnt + 1, arr1, s1))
      else Inr (dat, cnt, arr, s))"
  by pat_completeness auto
termination
  by (relation "measure (\<lambda>(f, row, column, st). nat (width f - column))") auto

function read_rows :: "PgmFile \<Rightarrow> int \<Rightarrow> read_state \<Rightarrow> failure + read_state" where
  "read_rows f row st =
     (if row < height f
      then case read_columns f row 0 st of
             Inl e \<Rightarrow> Inl e
           | Inr st1 \<Rightarrow> read_rows f (row + 1) st1
      else Inr st)"
  by pat_completeness auto
termination
  by (relation "measure (\<lambda>(f, row, st). nat (height f - row))") auto

declare read_columns.simps [simp del] read_rows.simps [simp del]

text \<open>
  The test after the loops. The read of one more byte is made for P5 only, and the
  product \<^verbatim>\<open>width * height\<close> is computed only when that test does not decide.
\<close>

definition check_count :: "PgmFile \<Rightarrow> int \<Rightarrow> stream \<Rightarrow> failure + stream" where
  "check_count f cnt s =
     (if type f = P5 \<and> fst (fgetc s) \<noteq> EOF then Inl (Reported CorruptedInputFile)
      else case c_int (width f * height f) of
             Inl e \<Rightarrow> Inl e
           | Inr n \<Rightarrow>
               if cnt \<noteq> n then Inl (Reported CorruptedInputFile)
               else Inr (if type f = P5 then snd (fgetc s) else s))"

definition TryReadPgmData :: "PgmConverter \<Rightarrow> stream \<Rightarrow> failure + (PgmConverter \<times> stream)" where
  "TryReadPgmData c s =
     (case read_rows (iF c) 0 (0, 0, data c, s) of
        Inl e \<Rightarrow> Inl e
      | Inr (dat, cnt, arr, s1) \<Rightarrow>
          (case check_count (iF c) cnt s1 of
             Inl e \<Rightarrow> Inl e
           | Inr s2 \<Rightarrow> Inr (c\<lparr>data := arr\<rparr>, s2)))"

text \<open>
  The samples that the two loops decode, in the order read: the values of \<^verbatim>\<open>data\<close> that
  reach the test against \<^verbatim>\<open>maxDataValue\<close>, that is those read before the end of the
  file, up to the point where the loops stop. When they stop at an ASCII sample whose
  number is no int, where the conversion is undefined, this number ends the list.
\<close>

definition unconverted :: "PgmType \<Rightarrow> stream \<Rightarrow> int list" where
  "unconverted t s =
     (case t of
        P2 \<Rightarrow> (case scan_i s of
                 Converted v s1 \<Rightarrow> if in_int v then [] else [v]
               | MatchingFailure s1 \<Rightarrow> []
               | InputFailure s1 \<Rightarrow> [])
      | P5 \<Rightarrow> []
      | UNKNOWN \<Rightarrow> [])"

function samples_columns :: "PgmFile \<Rightarrow> int \<Rightarrow> int \<Rightarrow> read_state \<Rightarrow> int list" where
  "samples_columns f row column (dat, cnt, arr, s) =
     (if column < width f
      then case read_sample (type f) dat s of
             Inl e \<Rightarrow> unconverted (type f) s
           | Inr (dat1, s1) \<Rightarrow>
               if feof s1 then []
               else if dat1 > maxDataValue f \<or> dat1 < 0 then [dat1]
               else (case store arr row column dat1 of
                       Inl e \<Rightarrow> [dat1]
                     | Inr arr1 \<Rightarrow> dat1 # samples_columns f row (column + 1) (dat1, cnt + 1, arr1, s1))
      else [])"
  by pat_completeness auto
termination
  by (relation "measure (\<lambda>(f, row, column, st). nat (width f - column))") auto

function samples_rows :: "PgmFile \<Rightarrow> int \<Rightarrow> read_state \<Rightarrow> int list" where
  "samples_rows f row st =
     (if row < height f
      then samples_columns f row 0 st
           @ (case read_columns f row 0 st of
                Inl e \<Rightarrow> []
              | Inr st1 \<Rightarrow> samples_rows f (row + 1) st1)
      else [])"
  by pat_completeness auto
termination
  by (relation "measure (\<lambda>(f, row, st). nat (height f - row))") auto

declare samples_columns.simps [simp del] samples_rows.simps [simp del]


subsection \<open>Output pgm initialization\<close>

definition set_dimensions :: "PgmConverter \<Rightarrow> PgmConverter" where
  "set_dimensions c =
     c\<lparr>oF :=
         \<lparr>width = (if isSwapWidthHeight (cArgs c) then height (iF c) else width (iF c)),
          height = (if isSwapWidthHeight (cArgs c) then width (iF c) else height (iF c)),
          maxDataValue = maxDataValue (iF c),
          type = (if type (oF c) = UNKNOWN then type (iF c) else type (oF c))\<rparr>\<rparr>"

text \<open>
  \<^verbatim>\<open>c->oF->height *= c->sArgs->hScale\<close>: the product is computed in double and converted
  back to int. The height is scaled before the width.
\<close>

definition scale_dimension :: "int \<Rightarrow> double \<Rightarrow> failure + int" where
  "scale_dimension n f = int_of_double (dmul (double_of_int n) f)"

definition set_scaled :: "PgmConverter \<Rightarrow> failure + PgmConverter" where
  "set_scaled c =
     (case sArgs c of
        None \<Rightarrow> Inl (Undefined NullPointer)
      | Some sa \<Rightarrow>
          bnd (scale_dimension (height (oF c)) (hScale sa)) (\<lambda>h.
          bnd (scale_dimension (width (oF c)) (wScale sa)) (\<lambda>w.
            if w > 1920 \<or> h > 1080 then Inl (Reported OutputTooLarge)
            else Inr (c\<lparr>oF := (oF c)\<lparr>height := h, width := w\<rparr>\<rparr>))))"

definition TrySetPgmInfo :: "PgmConverter \<Rightarrow> failure + PgmConverter" where
  "TrySetPgmInfo c =
     (if isScale (cArgs (set_dimensions c))
      then bnd (TryParseScalar (set_dimensions c)) set_scaled
      else Inr (set_dimensions c))"

subsection \<open>Data retrieval\<close>

definition GetData :: "PgmConverter \<Rightarrow> int \<Rightarrow> int \<Rightarrow> failure + int" where
  "GetData c row col = load (data c) row col"

definition GetReflectedData :: "PgmConverter \<Rightarrow> int \<Rightarrow> int \<Rightarrow> failure + int" where
  "GetReflectedData c row col = load (data c) col row"

definition GetRotated90Data :: "PgmConverter \<Rightarrow> int \<Rightarrow> int \<Rightarrow> failure + int" where
  "GetRotated90Data c row col =
     bnd (c_int (width (oF c) - 1)) (\<lambda>w1.
     bnd (c_int (w1 - col)) (\<lambda>r. load (data c) r row))"

text \<open>\<^verbatim>\<open>(int)(row / c->sArgs->hScale)\<close>: the division is made in double.\<close>

definition scaled_index :: "int \<Rightarrow> double \<Rightarrow> failure + int" where
  "scaled_index n f = int_of_double (ddiv (double_of_int n) f)"

definition GetScaledNnData :: "PgmConverter \<Rightarrow> int \<Rightarrow> int \<Rightarrow> failure + int" where
  "GetScaledNnData c row col =
     (case sArgs c of
        None \<Rightarrow> Inl (Undefined NullPointer)
      | Some sa \<Rightarrow>
          bnd (scaled_index row (hScale sa)) (\<lambda>r.
          bnd (scaled_index col (wScale sa)) (\<lambda>k. load (data c) r k)))"

text \<open>\<^verbatim>\<open>(int)(row / c->sArgs->hScale + rs)\<close>, the subscript of a row or column of the box.\<close>

definition box_index :: "int \<Rightarrow> double \<Rightarrow> int \<Rightarrow> failure + int" where
  "box_index n f k = int_of_double (dadd (ddiv (double_of_int n) f) (double_of_int k))"

definition box_sample :: "(int \<Rightarrow> int \<Rightarrow> int) \<Rightarrow> ScaleArgs \<Rightarrow> int \<Rightarrow> int \<Rightarrow> int \<Rightarrow> int \<Rightarrow> failure + int" where
  "box_sample arr sa row col rs cs =
     bnd (box_index row (hScale sa) rs) (\<lambda>r.
     bnd (box_index col (wScale sa) cs) (\<lambda>k. load arr r k))"

text \<open>The loop conditions \<^verbatim>\<open>rs < 1 / c->sArgs->hScale\<close> and \<^verbatim>\<open>cs < 1 / c->sArgs->wScale\<close>.\<close>

definition in_box :: "int \<Rightarrow> double \<Rightarrow> bool" where
  "in_box k f = dless (double_of_int k) (ddiv (double_of_int 1) f)"

text \<open>
  The two loops of \<^verbatim>\<open>GetScaledDownBoxData\<close>, on the variables \<^verbatim>\<open>data\<close> and \<^verbatim>\<open>count\<close>.
  The sum, the count and the loop counters are ints: a step that leaves the type is
  undefined.
\<close>

function box_columns ::
  "(int \<Rightarrow> int \<Rightarrow> int) \<Rightarrow> ScaleArgs \<Rightarrow> int \<Rightarrow> int \<Rightarrow> int \<Rightarrow> int \<Rightarrow> int \<times> int \<Rightarrow> failure + int \<times> int" where
  "box_columns arr sa row col rs cs (dat, cnt) =
     (if in_box cs (wScale sa)
      then case box_sample arr sa row col rs cs of
             Inl e \<Rightarrow> Inl e
           | Inr v \<Rightarrow>
               if in_int (dat + v) \<and> in_int (cnt + 1) \<and> in_int (cs + 1)
               then box_columns arr sa row col rs (cs + 1) (dat + v, cnt + 1)
               else Inl (Undefined SignedOverflow)
      else Inr (dat, cnt))"
  by pat_completeness auto
termination
  by (relation "measure (\<lambda>(arr, sa, row, col, rs, cs, st). nat (INT_MAX - cs))")
    (auto simp: in_int_def)

function box_rows ::
  "(int \<Rightarrow> int \<Rightarrow> int) \<Rightarrow> ScaleArgs \<Rightarrow> int \<Rightarrow> int \<Rightarrow> int \<Rightarrow> int \<times> int \<Rightarrow> failure + int \<times> int" where
  "box_rows arr sa row col rs st =
     (if in_box rs (hScale sa)
      then case box_columns arr sa row col rs 0 st of
             Inl e \<Rightarrow> Inl e
           | Inr st1 \<Rightarrow>
               if in_int (rs + 1) then box_rows arr sa row col (rs + 1) st1
               else Inl (Undefined SignedOverflow)
      else Inr st)"
  by pat_completeness auto
termination
  by (relation "measure (\<lambda>(arr, sa, row, col, rs, st). nat (INT_MAX - rs))")
    (auto simp: in_int_def)

declare box_columns.simps [simp del] box_rows.simps [simp del]

definition GetScaledDownBoxData :: "PgmConverter \<Rightarrow> int \<Rightarrow> int \<Rightarrow> failure + int" where
  "GetScaledDownBoxData c row col =
     (case sArgs c of
        None \<Rightarrow> Inl (Undefined NullPointer)
      | Some sa \<Rightarrow>
          (case box_rows (data c) sa row col 0 (0, 0) of
             Inl e \<Rightarrow> Inl e
           | Inr (dat, cnt) \<Rightarrow> c_div dat cnt))"

text \<open>
  The call through \<^verbatim>\<open>c->cArgs->getData\<close>. \<^verbatim>\<open>GetScaledUpBlData\<close> is not embedded: the
  functions that call through the pointer take its meaning as the parameter \<open>up\<close>.
\<close>

definition call ::
  "(PgmConverter \<Rightarrow> int \<Rightarrow> int \<Rightarrow> failure + int) \<Rightarrow> getData_ptr \<Rightarrow> PgmConverter \<Rightarrow> int \<Rightarrow> int \<Rightarrow> failure + int" where
  "call up p c row col =
     (case p of
        NULL \<Rightarrow> Inl (Undefined NullPointer)
      | To_GetData \<Rightarrow> GetData c row col
      | To_GetReflectedData \<Rightarrow> GetReflectedData c row col
      | To_GetRotated90Data \<Rightarrow> GetRotated90Data c row col
      | To_GetScaledNnData \<Rightarrow> GetScaledNnData c row col
      | To_GetScaledUpBlData \<Rightarrow> up c row col
      | To_GetScaledDownBoxData \<Rightarrow> GetScaledDownBoxData c row col)"

subsection \<open>Writing the output pgm\<close>

text \<open>
  The writers append to the bytes of the output stream. They return these bytes, with
  the failure that stopped them if there is one.
\<close>

definition WritePgmInfo :: "PgmFile \<Rightarrow> string \<Rightarrow> failure option \<times> string" where
  "WritePgmInfo f out =
     (case PgmTypeToStr (type f) of
        None \<Rightarrow> (Some (Undefined NullPointer), out)
      | Some t \<Rightarrow>
          (None,
           out @ t @ ''\<newline># Generated by pnmdump.exe\<newline>''
             @ print_i (width f) @ '' '' @ print_i (height f) @ ''\<newline>''
             @ print_i (maxDataValue f) @ ''\<newline>''))"

text \<open>The three \<^verbatim>\<open>fprintf\<close> calls for P2, chosen by the column.\<close>

definition print_P2 :: "PgmFile \<Rightarrow> int \<Rightarrow> int \<Rightarrow> string" where
  "print_P2 f col v =
     (if col = 0 then print_i v
      else if col = width f - 1 then '' '' @ print_i v @ ''\<newline>''
      else '' '' @ print_i v)"

function write_columns ::
  "(int \<Rightarrow> int \<Rightarrow> failure + int) \<Rightarrow> PgmFile \<Rightarrow> int \<Rightarrow> int \<Rightarrow> string \<Rightarrow> failure option \<times> string" where
  "write_columns get f row col out =
     (if col < width f
      then if type f = P2
           then case get row col of
                  Inl e \<Rightarrow> (Some e, out)
                | Inr v \<Rightarrow> write_columns get f row (col + 1) (out @ print_P2 f col v)
           else if type f = P5
           then case get row col of
                  Inl e \<Rightarrow> (Some e, out)
                | Inr v \<Rightarrow> write_columns get f row (col + 1) (out @ print_c v)
           else write_columns get f row (col + 1) out
      else (None, out))"
  by pat_completeness auto
termination
  by (relation "measure (\<lambda>(get, f, row, col, out). nat (width f - col))") auto

function write_rows ::
  "(int \<Rightarrow> int \<Rightarrow> failure + int) \<Rightarrow> PgmFile \<Rightarrow> int \<Rightarrow> string \<Rightarrow> failure option \<times> string" where
  "write_rows get f row out =
     (if row < height f
      then case write_columns get f row 0 out of
             (Some e, out1) \<Rightarrow> (Some e, out1)
           | (None, out1) \<Rightarrow> write_rows get f (row + 1) out1
      else (None, out))"
  by pat_completeness auto
termination
  by (relation "measure (\<lambda>(get, f, row, out). nat (height f - row))") auto

declare write_columns.simps [simp del] write_rows.simps [simp del]

definition WritePgmData ::
  "(PgmConverter \<Rightarrow> int \<Rightarrow> int \<Rightarrow> failure + int) \<Rightarrow> PgmConverter \<Rightarrow> string \<Rightarrow> failure option \<times> string" where
  "WritePgmData up c out = write_rows (call up (getData (cArgs c)) c) (oF c) 0 out"

subsection \<open>Stream management\<close>

text \<open>
  The input file is \<open>None\<close> when \<^verbatim>\<open>fopen\<close> returns the null pointer for it, else its
  bytes; the output file is taken to open. \<^verbatim>\<open>TryOpenStreams\<close> stops at an input that
  does not open, before it assigns the output stream, which \<^verbatim>\<open>main\<close> has set to null.
  \<^verbatim>\<open>CloseStreams\<close> passes both streams to \<^verbatim>\<open>fclose\<close>: the null pointer is no stream,
  and the call is undefined for it (C11 7.1.4p1).
\<close>

definition TryOpenStreams :: "string option \<Rightarrow> failure + string" where
  "TryOpenStreams input =
     (case input of None \<Rightarrow> Inl (Reported NoSuchFile) | Some bytes \<Rightarrow> Inr bytes)"

definition CloseStreams :: "string option \<Rightarrow> failure option" where
  "CloseStreams input =
     (case input of None \<Rightarrow> Some (Undefined NullPointer) | Some bytes \<Rightarrow> None)"

subsection \<open>Pgm conversion\<close>

text \<open>
  The result of a run is its failure, if any, and the bytes written to the output file.
  Every path ends with \<^verbatim>\<open>CloseStreams\<close>, which changes the result only after an input
  that did not open.
\<close>

definition decode :: "PgmConverter \<Rightarrow> string \<Rightarrow> failure + (PgmConverter \<times> stream)" where
  "decode c bytes = bnd (TryReadPgmInfo c (bytes, False)) (\<lambda>(c1, s1). TryReadPgmData c1 s1)"

definition read_and_set :: "PgmConverter \<Rightarrow> string \<Rightarrow> failure + PgmConverter" where
  "read_and_set c bytes = bnd (decode c bytes) (\<lambda>(c2, s2). TrySetPgmInfo c2)"

definition TryConvertPgm ::
  "(PgmConverter \<Rightarrow> int \<Rightarrow> int \<Rightarrow> failure + int) \<Rightarrow> PgmConverter \<Rightarrow> string option \<Rightarrow> failure option \<times> string" where
  "TryConvertPgm up c input =
     (case TryOpenStreams input of
        Inl e \<Rightarrow>
          (case CloseStreams input of
             Some u \<Rightarrow> (Some u, [])
           | None \<Rightarrow> (Some e, []))
      | Inr bytes \<Rightarrow>
          (case read_and_set c bytes of
             Inl e \<Rightarrow> (Some e, [])
           | Inr c3 \<Rightarrow>
               (case WritePgmInfo (oF c3) [] of
                  (Some e, out) \<Rightarrow> (Some e, out)
                | (None, out) \<Rightarrow> WritePgmData up c3 out)))"

subsection \<open>The converters that main builds\<close>

definition new_file :: "PgmType \<Rightarrow> PgmFile" where
  "new_file t = \<lparr>width = 0, height = 0, maxDataValue = 0, type = t\<rparr>"

definition new_converter ::
  "PgmType \<Rightarrow> PgmType \<Rightarrow> getData_ptr \<Rightarrow> bool \<Rightarrow> bool \<Rightarrow> ScaleArgs option \<Rightarrow> PgmConverter" where
  "new_converter ti to g swap sc sa =
     \<lparr>iF = new_file ti, oF = new_file to,
      cArgs = \<lparr>getData = g, isSwapWidthHeight = swap, isScale = sc\<rparr>,
      sArgs = sa, data = (\<lambda>r c. 0)\<rparr>"

definition new_scale :: "string \<Rightarrow> ScaleType \<Rightarrow> ScaleArgs" where
  "new_scale str t =
     \<lparr>scale = str, scaleType = t, isEnlarge = False,
      hScale = double_of_int 1, wScale = double_of_int 1\<rparr>"

definition main_P2toP5 :: PgmConverter where
  "main_P2toP5 = new_converter P2 P5 To_GetData False False None"

definition main_P5toP2 :: PgmConverter where
  "main_P5toP2 = new_converter P5 P2 To_GetData False False None"

definition main_rotate :: PgmConverter where
  "main_rotate = new_converter UNKNOWN UNKNOWN To_GetReflectedData True False None"

definition main_rotate90 :: PgmConverter where
  "main_rotate90 = new_converter UNKNOWN UNKNOWN To_GetRotated90Data True False None"

definition main_scaleNn :: "string \<Rightarrow> PgmConverter" where
  "main_scaleNn str =
     new_converter UNKNOWN UNKNOWN To_GetScaledNnData False True
       (Some (new_scale str NEAREST_NEIGHBOR))"

definition main_scaleBl :: "string \<Rightarrow> PgmConverter" where
  "main_scaleBl str =
     new_converter UNKNOWN UNKNOWN NULL False True (Some (new_scale str BILINEAR))"

text \<open>
  The converter of the ASCII round trip: an ASCII input, an ASCII output and the
  retrieval \<^verbatim>\<open>GetData\<close>, which returns the sample of the same row and column
  (\<^verbatim>\<open>main\<close> itself pairs \<^verbatim>\<open>GetData\<close> with the two changes of encoding only).
\<close>

definition codec_P2 :: PgmConverter where
  "codec_P2 = new_converter P2 P2 To_GetData False False None"

subsection \<open>What a result shows\<close>

text \<open>The factors \<open>(wScale, hScale)\<close> that a parse leaves in the converter.\<close>

definition factors :: "failure + PgmConverter \<Rightarrow> failure + (double \<times> double) option" where
  "factors r = map_sum id (\<lambda>c. map_option (\<lambda>sa. (wScale sa, hScale sa)) (sArgs c)) r"

text \<open>The descriptor and the sample grid, row by row, that a decode leaves.\<close>

definition grid :: "PgmConverter \<Rightarrow> int list list" where
  "grid c = map (\<lambda>r. map (\<lambda>k. data c r k) [0..width (iF c) - 1]) [0..height (iF c) - 1]"

definition raster :: "failure + (PgmConverter \<times> stream) \<Rightarrow> failure + (PgmFile \<times> int list list)" where
  "raster r = map_sum id (\<lambda>(c, s). (iF c, grid c)) r"

text \<open>The output dimensions \<open>(width, height)\<close> and the retrieval function that are set.\<close>

definition out_dims :: "failure + PgmConverter \<Rightarrow> failure + (int \<times> int)" where
  "out_dims r = map_sum id (\<lambda>c. (width (oF c), height (oF c))) r"


text \<open>
  The product of a dimension and a factor as \<^verbatim>\<open>c->oF->height *= c->sArgs->hScale\<close>
  computes it, in double, and the doubles that the conversion to int is defined for.
\<close>

definition product :: "int \<Rightarrow> double \<Rightarrow> double" where
  "product n f = dmul (double_of_int n) f"

definition fits_int :: "double \<Rightarrow> bool" where
  "fits_int d \<longleftrightarrow> is_finite d \<and> in_int (trunc (val d))"


subsection \<open>Sums over a block of samples\<close>

text \<open>
  The samples of the array at the rows \<open>R i\<close> and the columns \<open>C j\<close>, summed over
  \<open>cs \<le> j < W\<close> in a row and over \<open>rs \<le> i < H\<close> for the block.
\<close>

definition row_sum :: "(int \<Rightarrow> int \<Rightarrow> int) \<Rightarrow> int \<Rightarrow> (int \<Rightarrow> int) \<Rightarrow> int \<Rightarrow> int \<Rightarrow> int" where
  "row_sum arr r C cs W = sum_list (map (\<lambda>j. arr r (C j)) [cs..W - 1])"

definition block_sum ::
  "(int \<Rightarrow> int \<Rightarrow> int) \<Rightarrow> (int \<Rightarrow> int) \<Rightarrow> (int \<Rightarrow> int) \<Rightarrow> int \<Rightarrow> int \<Rightarrow> int \<Rightarrow> int" where
  "block_sum arr R C rs H W = sum_list (map (\<lambda>i. row_sum arr (R i) C 0 W) [rs..H - 1])"

subsection \<open>The box filter in the words of the specification\<close>



section \<open>Evaluation\<close>

text \<open>Floor and ceiling of a quotient of numerals, for the rounding of concrete values.\<close>

lemma floor_rat_numeral: "\<lfloor>numeral a / numeral b :: rat\<rfloor> = numeral a div numeral b"
  using floor_divide_of_int_eq [of "numeral a" "numeral b", where ?'a = rat] by simp

lemma floor_rat_neg_numeral: "\<lfloor>- (numeral a / numeral b) :: rat\<rfloor> = - numeral a div numeral b"
  using floor_divide_of_int_eq [of "- numeral a" "numeral b", where ?'a = rat] by simp

lemma ceiling_rat_numeral: "\<lceil>numeral a / numeral b :: rat\<rceil> = - (- numeral a div numeral b)"
  using floor_rat_neg_numeral [of a b] by (simp add: ceiling_def)

lemma ceiling_rat_neg_numeral: "\<lceil>- (numeral a / numeral b) :: rat\<rceil> = - (numeral a div numeral b)"
  using floor_rat_numeral [of a b] by (simp add: ceiling_def)

lemmas fl_eval =
  fl_def nearest_def ulp_def expo_def expo_hi.simps expo_lo.simps pow2_def round_even_def
  floor_rat_numeral floor_rat_neg_numeral ceiling_rat_numeral ceiling_rat_neg_numeral

lemmas double_eval =
  ddiv_def dmul_def dadd_def dless_def dle_def double_of_int_def zero_of_def inf_of_def
  int_of_double_def trunc_def in_int_def INT_MIN_def INT_MAX_def

lemmas scan_eval =
  scan_lf_def scan_float_def read_fraction_def read_exponent_def scan_inf_def scan_nan_def
  close_paren_def make_double_def scale_by_def skip_space_def read_while_def isspace_def
  read_sign_def tolower_def isdigit_def isxdigit_def isoctal_def isalpha_def number_def
  digit_val_def match_char_def scan_i_def scan_integer_def scan_s_def scan_not_newline_def

lemmas sscanf_eval =
  scale_factors_def sscanf_lf_def sscanf_lf_sep_lf_def sscanf_fractions_def sep_lf_def
  consumed_def char_at_def EOF_def

lemmas parse_eval =
  TryParseScalar_def set_factors_def check_factors_def select_getData_def main_scaleNn_def
  main_scaleBl_def new_converter_def new_scale_def new_file_def

lemmas read_eval =
  decode_def TryReadPgmInfo_def fscanf_header_def scan_comment_def scan_width_def
  scan_height_def scan_max_def adopt_type_def StrToPgmType_def TryReadPgmData_def
  read_rows.simps read_columns.simps read_sample_def fscanf_i_def fgetc_def feof_def
  store_def check_count_def c_int_def bnd_def upto.simps
  main_P2toP5_def main_P5toP2_def main_rotate_def main_rotate90_def
  new_converter_def new_file_def in_int_def INT_MIN_def INT_MAX_def

lemmas write_eval =
  TryConvertPgm_def TryOpenStreams_def read_and_set_def TrySetPgmInfo_def set_dimensions_def
  WritePgmInfo_def
  WritePgmData_def write_rows.simps write_columns.simps print_P2_def print_i_def print_c_def
  decimal.simps PgmTypeToStr_def call_def GetData_def GetReflectedData_def load_def
  char_of_eq_iff


lemmas loop_eval =
  TryReadPgmData_def read_rows.simps read_columns.simps read_sample_def fscanf_i_def fgetc_def
  feof_def store_def check_count_def c_int_def in_int_def INT_MIN_def INT_MAX_def EOF_def
  main_P2toP5_def main_P5toP2_def new_converter_def new_file_def

section \<open>The scale parser\<close>

lemma scale_factors_2: "scale_factors ''2'' = Some (Num 2, Num 2)"
  by (simp add: sscanf_eval scan_eval fl_eval double_eval)

lemma scale_factors_half: "scale_factors ''1/2'' = Some (Num (1 / 2), Num (1 / 2))"
  by (simp add: sscanf_eval scan_eval fl_eval double_eval)

lemma scale_factors_3x4: "scale_factors ''3x4'' = Some (Num 3, Num 4)"
  by (simp add: sscanf_eval scan_eval fl_eval double_eval)

lemma scale_factors_fractions: "scale_factors ''1/2x3/4'' = Some (Num (1 / 2), Num (3 / 4))"
  by (simp add: sscanf_eval scan_eval fl_eval double_eval)

lemma scale_factors_2xhalf: "scale_factors ''2xhalf'' = None"
  by (simp add: sscanf_eval scan_eval fl_eval double_eval)

text \<open>
  Claim C8. \<^verbatim>\<open>TryParseScalar\<close> tries its four formats in order, each having to reach the
  end of the text. It leaves the factors (width, height) = (2, 2) for \<^verbatim>\<open>2\<close>,
  (1/2, 1/2) for \<^verbatim>\<open>1/2\<close>, (3, 4) for \<^verbatim>\<open>3x4\<close> and (1/2, 3/4) for \<^verbatim>\<open>1/2x3/4\<close>, and it
  fails with the message of a bad scalar format for \<^verbatim>\<open>2xhalf\<close>.
\<close>

theorem scale_parser_examples:
  "factors (TryParseScalar (main_scaleNn ''2'')) = Inr (Some (Num 2, Num 2)) \<and>
   factors (TryParseScalar (main_scaleNn ''1/2'')) = Inr (Some (Num (1 / 2), Num (1 / 2))) \<and>
   factors (TryParseScalar (main_scaleNn ''3x4'')) = Inr (Some (Num 3, Num 4)) \<and>
   factors (TryParseScalar (main_scaleNn ''1/2x3/4'')) = Inr (Some (Num (1 / 2), Num (3 / 4))) \<and>
   TryParseScalar (main_scaleNn ''2xhalf'') = Inl (Reported BadScalarFormat)"
  by (simp add: factors_def parse_eval scale_factors_2 scale_factors_half scale_factors_3x4
      scale_factors_fractions scale_factors_2xhalf double_eval)

text \<open>No number starts with the letter m: the first conversion of each format fails.\<close>

lemma scan_lf_m: "scan_lf (CHR ''m'' # rest, e) = MatchingFailure (CHR ''m'' # rest, e)"
  by (simp add: scan_eval)

lemma scale_factors_m: "scale_factors (CHR ''m'' # rest) = None"
  by (simp add: sscanf_eval scan_lf_m)

text \<open>
  Claim C10. For every scale text whose first character is \<^verbatim>\<open>m\<close>, \<^verbatim>\<open>TryParseScalar\<close>
  fails with the message of a bad scalar format: none of the four formats reads such a
  text, so the value false of \<^verbatim>\<open>isEnlarge\<close> never comes with a successful parse.
\<close>

theorem leading_m_is_rejected:
  assumes "sArgs c = Some sa" and "scale sa = CHR ''m'' # rest"
  shows "TryParseScalar c = Inl (Reported BadScalarFormat)"
  using assms by (simp add: TryParseScalar_def scale_factors_m)

theorem leading_m_is_rejected_witness:
  "sArgs (main_scaleBl ''m2'') = Some (new_scale ''m2'' BILINEAR) \<and>
   scale (new_scale ''m2'' BILINEAR) = CHR ''m'' # ''2'' \<and>
   TryParseScalar (main_scaleBl ''m2'') = Inl (Reported BadScalarFormat)"
proof -
  have a: "sArgs (main_scaleBl ''m2'') = Some (new_scale ''m2'' BILINEAR)"
    by (simp add: main_scaleBl_def new_converter_def)
  have b: "scale (new_scale ''m2'' BILINEAR) = CHR ''m'' # ''2''"
    by (simp add: new_scale_def)
  show ?thesis
    using a b leading_m_is_rejected [OF a b] by simp
qed

section \<open>The decoder\<close>

subsection \<open>The header magic\<close>

text \<open>
  The header conversions never assign the type of the file record. An expected encoding
  that differs from the one of the magic is reported; without an expected encoding, a
  magic that is neither \<^verbatim>\<open>P2\<close> nor \<^verbatim>\<open>P5\<close> passes the test, since both sides of it
  are \<^verbatim>\<open>UNKNOWN\<close>.
\<close>

lemma fscanf_header_type:
  "fscanf_header f0 s = Inr (n, t, f, s1) \<Longrightarrow> type f = type f0"
  by (auto simp: fscanf_header_def scan_comment_def scan_width_def scan_height_def scan_max_def
      split: conv.splits if_splits)

lemma expected_encoding_is_enforced:
  assumes "fscanf_header (iF c) s = Inr (4, typeStr, f, s1)"
    and "type (iF c) \<noteq> UNKNOWN" and "StrToPgmType typeStr \<noteq> type (iF c)"
  shows "TryReadPgmInfo c s = Inl (Reported (InputNotInFormat (type (iF c))))"
  using assms fscanf_header_type [OF assms(1)]
  by (simp add: TryReadPgmInfo_def adopt_type_def)

lemma unknown_magic_passes_header:
  assumes "fscanf_header (iF c) s = Inr (4, typeStr, f, s1)"
    and "type (iF c) = UNKNOWN" and "StrToPgmType typeStr = UNKNOWN"
  shows "TryReadPgmInfo c s = Inr (c\<lparr>iF := f\<rparr>, s1)"
  using assms fscanf_header_type [OF assms(1)]
  by (simp add: TryReadPgmInfo_def adopt_type_def)

text \<open>
  Claim C3, at the input on which the code departs from it. The file starts with the
  magic \<^verbatim>\<open>P3\<close> and the caller gives no expected encoding (\<^verbatim>\<open>--rotate\<close>): the parsed type
  and the expected type are both \<^verbatim>\<open>UNKNOWN\<close>, the test for a mismatch passes, and the
  decode succeeds with a sample 0 that was never read from the file.
\<close>

theorem unknown_magic_is_accepted:
  "raster (decode main_rotate ''P3\<newline># c\<newline>1 1\<newline>255\<newline>7'') =
     Inr (\<lparr>width = 1, height = 1, maxDataValue = 255, type = UNKNOWN\<rparr>, [[0]])"
  by (simp add: raster_def grid_def read_eval scan_eval)

subsection \<open>The capacity of the array\<close>

text \<open>
  With a width above 512, the sample of column 512 is stored after those of the columns
  below: no test of the subscript comes before the store.
\<close>

lemma overrun_step:
  assumes "type f = P5" and "512 < width f" and "97 \<le> maxDataValue f"
    and "0 \<le> row" and "row < 512"
  shows "k \<le> 512 \<Longrightarrow>
    read_columns f row (512 - int k)
      (dat, cnt, arr, (replicate (Suc k) (CHR ''a'') @ rest, False))
      = Inl (Undefined (IndexOutOfArray row 512))"
proof (induction k arbitrary: dat cnt arr)
  case 0
  show ?case
    using assms
    by (simp add: read_columns.simps [of f row 512] read_sample_def fgetc_def feof_def store_def)
next
  case (Suc k)
  have col: "512 - int (Suc k) + 1 = 512 - int k"
    by simp
  have "read_columns f row (512 - int (Suc k))
          (dat, cnt, arr, (replicate (Suc (Suc k)) (CHR ''a'') @ rest, False))
        = read_columns f row (512 - int k)
          (97, cnt + 1, arr(row := (arr row)(512 - int (Suc k) := 97)),
           (replicate (Suc k) (CHR ''a'') @ rest, False))"
    using assms Suc.prems
    by (subst read_columns.simps) (simp add: read_sample_def fgetc_def feof_def store_def col)
  then show ?case
    using Suc.IH Suc.prems by simp
qed

lemma wide_header:
  "TryReadPgmInfo main_P5toP2 (''P5\<newline># c\<newline>513 1\<newline>255\<newline>'' @ CHR ''a'' # rest, False) =
     Inr (main_P5toP2\<lparr>iF := \<lparr>width = 513, height = 1, maxDataValue = 255, type = P5\<rparr>\<rparr>,
          (CHR ''a'' # rest, False))"
  by (simp add: read_eval scan_eval)

text \<open>
  Claim C1, at the input on which the code departs from it. The header declares a width
  of 513 and the body holds 513 bytes. \<^verbatim>\<open>--P5toP2\<close> reports no error: after the 512
  samples of the columns 0 to 511 it executes \<^verbatim>\<open>c->data[0][512] = data\<close>, a store
  outside \<^verbatim>\<open>int data[512][512]\<close>.
\<close>

theorem wide_input_is_stored_out_of_bounds:
  "decode main_P5toP2 (''P5\<newline># c\<newline>513 1\<newline>255\<newline>'' @ replicate 513 (CHR ''a'')) =
     Inl (Undefined (IndexOutOfArray 0 512))"
proof -
  define f where "f = \<lparr>width = 513, height = 1, maxDataValue = 255, type = P5\<rparr>"
  define more where "more = replicate 512 (CHR ''a'')"
  have n: "(513::nat) = Suc 512"
    by simp
  have r: "replicate 513 (CHR ''a'') = CHR ''a'' # more"
    unfolding more_def n by (rule replicate.simps)
  have s: "CHR ''a'' # more = replicate (Suc 512) (CHR ''a'') @ []"
    unfolding more_def by (simp only: replicate.simps append_Nil2)
  have "read_columns f 0 (512 - int 512)
      (0, 0, (\<lambda>r c. 0), (replicate (Suc 512) (CHR ''a'') @ [], False))
      = Inl (Undefined (IndexOutOfArray 0 512))"
    by (rule overrun_step) (simp_all add: f_def)
  then have c: "read_columns f 0 0 (0, 0, (\<lambda>r c. 0), (CHR ''a'' # more, False))
      = Inl (Undefined (IndexOutOfArray 0 512))"
    unfolding s by simp
  have "read_rows f 0 (0, 0, (\<lambda>r c. 0), (CHR ''a'' # more, False))
      = Inl (Undefined (IndexOutOfArray 0 512))"
    by (subst read_rows.simps) (simp add: c, simp add: f_def)
  then show ?thesis
    unfolding decode_def r wide_header f_def
    by (simp add: bnd_def TryReadPgmData_def main_P5toP2_def new_converter_def)
qed

section \<open>The encoder\<close>

text \<open>
  Claim C5, at the input on which the code departs from it. The image is one column
  wide and two rows high. Column 0 is written by the branch \<^verbatim>\<open>col == 0\<close>, the branch of
  the final column that adds the newline is never reached, and the two rows are written
  as \<^verbatim>\<open>9798\<close> with nothing between them and nothing after them.
\<close>

theorem single_column_rows_are_not_terminated:
  "TryConvertPgm up main_P5toP2 (Some ''P5\<newline># c\<newline>1 2\<newline>255\<newline>ab'') =
     (None, ''P2\<newline># Generated by pnmdump.exe\<newline>1 2\<newline>255\<newline>9798'')"
  by (simp add: write_eval read_eval scan_eval)

text \<open>
  Claim C2, at the input on which the code departs from it. The ASCII file of one column
  and two rows decodes to the samples 7 and 8; encoded again as ASCII with \<^verbatim>\<open>GetData\<close>
  the body is \<^verbatim>\<open>78\<close>; the second decode reads the single number 78 at the end of the file
  and fails.
\<close>

theorem single_column_round_trip_fails:
  "raster (decode codec_P2 ''P2\<newline># c\<newline>1 2\<newline>255\<newline>7\<newline>8\<newline>'') =
     Inr (\<lparr>width = 1, height = 2, maxDataValue = 255, type = P2\<rparr>, [[7], [8]]) \<and>
   TryConvertPgm up codec_P2 (Some ''P2\<newline># c\<newline>1 2\<newline>255\<newline>7\<newline>8\<newline>'') =
     (None, ''P2\<newline># Generated by pnmdump.exe\<newline>1 2\<newline>255\<newline>78'') \<and>
   raster (decode codec_P2 ''P2\<newline># Generated by pnmdump.exe\<newline>1 2\<newline>255\<newline>78'') =
     Inl (Reported CorruptedInputFile)"
  by (simp add: raster_def grid_def codec_P2_def write_eval read_eval scan_eval)

section \<open>The dimensions of a scaled output\<close>

lemma TryParseScalar_keeps:
  assumes "TryParseScalar c = Inr c1"
  shows "iF c1 = iF c \<and> oF c1 = oF c \<and> data c1 = data c"
  using assms
  by (auto simp: TryParseScalar_def set_factors_def split: option.splits prod.splits)

lemma failed_run_writes_nothing:
  "read_and_set c bytes = Inl e \<Longrightarrow> TryConvertPgm up c (Some bytes) = (Some e, [])"
  by (simp add: TryConvertPgm_def TryOpenStreams_def)

lemma scale_dimension_cases:
  "scale_dimension n f =
     (if fits_int (product n f) then Inr (trunc (val (product n f)))
      else Inl (Undefined IntegerUnrepresentable))"
  by (simp add: scale_dimension_def int_of_double_def fits_int_def product_def)

text \<open>
  Claim C6, as the code has it. For a conversion that scales and does not swap width and
  height, whose input decodes and whose scale text passes \<^verbatim>\<open>TryParseScalar\<close>: the
  products of the input height and width with the factors are computed in double and
  converted to int, which drops the fraction. When both conversions are defined and the
  width so obtained exceeds 1920 or the height exceeds 1080, the run fails with the
  message of a too large output and writes no byte; when neither does, these two numbers
  are the output dimensions. When a product is infinite, a NaN, or has an integral part
  that is no int, the conversion is undefined and no message is guaranteed.
\<close>

theorem scaled_output_dimensions:
  assumes dec: "decode c bytes = Inr (c2, s2)"
    and sc: "isScale (cArgs c2)" and nsw: "\<not> isSwapWidthHeight (cArgs c2)"
    and ps: "TryParseScalar (set_dimensions c2) = Inr c3"
    and sa: "sArgs c3 = Some sa"
  shows "(let ph = product (height (iF c2)) (hScale sa);
              pw = product (width (iF c2)) (wScale sa)
          in if fits_int ph \<and> fits_int pw
             then if trunc (val pw) > 1920 \<or> trunc (val ph) > 1080
                  then TryConvertPgm up c (Some bytes) = (Some (Reported OutputTooLarge), [])
                  else out_dims (read_and_set c bytes) = Inr (trunc (val pw), trunc (val ph))
             else TryConvertPgm up c (Some bytes) = (Some (Undefined IntegerUnrepresentable), []))"
proof -
  define ph where "ph = product (height (iF c2)) (hScale sa)"
  define pw where "pw = product (width (iF c2)) (wScale sa)"
  have k: "iF c3 = iF (set_dimensions c2) \<and> oF c3 = oF (set_dimensions c2)"
    using TryParseScalar_keeps [OF ps] by simp
  have hd: "height (oF c3) = height (iF c2)" and wd: "width (oF c3) = width (iF c2)"
    using k nsw by (simp_all add: set_dimensions_def)
  have isc: "isScale (cArgs (set_dimensions c2))"
    using sc by (simp add: set_dimensions_def)
  have set: "TrySetPgmInfo c2 =
      (if \<not> (fits_int ph \<and> fits_int pw) then Inl (Undefined IntegerUnrepresentable)
       else if trunc (val pw) > 1920 \<or> trunc (val ph) > 1080 then Inl (Reported OutputTooLarge)
       else Inr (c3\<lparr>oF := (oF c3)\<lparr>height := trunc (val ph), width := trunc (val pw)\<rparr>\<rparr>))"
    using isc ps sa
    by (simp add: TrySetPgmInfo_def bnd_def set_scaled_def hd wd scale_dimension_cases
        ph_def pw_def)
  have rs: "read_and_set c bytes = TrySetPgmInfo c2"
    using dec by (simp add: read_and_set_def bnd_def)
  consider (undef) "\<not> (fits_int ph \<and> fits_int pw)"
    | (large) "fits_int ph \<and> fits_int pw" "trunc (val pw) > 1920 \<or> trunc (val ph) > 1080"
    | (fine) "fits_int ph \<and> fits_int pw" "\<not> (trunc (val pw) > 1920 \<or> trunc (val ph) > 1080)"
    by blast
  then have "if fits_int ph \<and> fits_int pw
             then if trunc (val pw) > 1920 \<or> trunc (val ph) > 1080
                  then TryConvertPgm up c (Some bytes) = (Some (Reported OutputTooLarge), [])
                  else out_dims (read_and_set c bytes) = Inr (trunc (val pw), trunc (val ph))
             else TryConvertPgm up c (Some bytes) = (Some (Undefined IntegerUnrepresentable), [])"
  proof cases
    case undef
    then have nf: "(fits_int ph \<and> fits_int pw) = False"
      by blast
    have "read_and_set c bytes = Inl (Undefined IntegerUnrepresentable)"
      using rs set undef by simp
    then have "TryConvertPgm up c (Some bytes) = (Some (Undefined IntegerUnrepresentable), [])"
      by (rule failed_run_writes_nothing)
    then show ?thesis
      unfolding nf by simp
  next
    case large
    have "read_and_set c bytes = Inl (Reported OutputTooLarge)"
      using rs set large by simp
    then have "TryConvertPgm up c (Some bytes) = (Some (Reported OutputTooLarge), [])"
      by (rule failed_run_writes_nothing)
    then show ?thesis
      using large by simp
  next
    case fine
    then show ?thesis
      using rs set by (simp add: out_dims_def)
  qed
  then show ?thesis
    unfolding Let_def ph_def pw_def .
qed

lemma scale_factors_481: "scale_factors ''481'' = Some (Num 481, Num 481)"
  by (simp add: sscanf_eval scan_eval fl_eval double_eval)

lemma decode_4x1: "decode (main_scaleNn str) ''P2\<newline># c\<newline>4 1\<newline>255\<newline>1 2 3 4\<newline>'' =
   Inr ((main_scaleNn str)\<lparr>iF := \<lparr>width = 4, height = 1, maxDataValue = 255, type = P2\<rparr>,
      data := (\<lambda>r c. 0)(0 := (\<lambda>c. 0)(0 := 1, 1 := 2, 2 := 3, 3 := 4))\<rparr>, (''\<newline>'', False))"
  by (simp add: read_eval scan_eval main_scaleNn_def)

lemma scale_factors_480: "scale_factors ''480.125x1'' = Some (Num (3841 / 8), Num 1)"
  by (simp add: sscanf_eval scan_eval fl_eval double_eval)

text \<open>
  The run of \<^verbatim>\<open>--scaleNn 481\<close> on an image of width 4 and height 1: the width 1924 is
  too large. Any function can stand for \<^verbatim>\<open>GetScaledUpBlData\<close> here.
\<close>

theorem scaled_output_dimensions_witness:
  "TryConvertPgm GetData (main_scaleNn ''481'') (Some ''P2\<newline># c\<newline>4 1\<newline>255\<newline>1 2 3 4\<newline>'') =
     (Some (Reported OutputTooLarge), [])"
proof -
  let ?c2 = "(main_scaleNn ''481'')\<lparr>iF := \<lparr>width = 4, height = 1, maxDataValue = 255, type = P2\<rparr>,
      data := (\<lambda>r c. 0)(0 := (\<lambda>c. 0)(0 := 1, 1 := 2, 2 := 3, 3 := 4))\<rparr>"
  let ?sa = "\<lparr>scale = ''481'', scaleType = NEAREST_NEIGHBOR, isEnlarge = True, hScale = Num 481, wScale = Num 481\<rparr>"
  let ?c3 = "(set_dimensions ?c2)\<lparr>sArgs := Some ?sa\<rparr>"
  have a: "isScale (cArgs ?c2)" and b: "\<not> isSwapWidthHeight (cArgs ?c2)"
    by (simp_all add: main_scaleNn_def new_converter_def)
  have p: "TryParseScalar (set_dimensions ?c2) = Inr ?c3"
    by (simp add: parse_eval scale_factors_481 double_eval set_dimensions_def char_at_def)
  have s: "sArgs ?c3 = Some ?sa"
    by simp
  have h: "product (height (iF ?c2)) (hScale ?sa) = Num 481"
    by (simp add: product_def double_eval fl_eval)
  have w: "product (width (iF ?c2)) (wScale ?sa) = Num 1924"
    by (simp add: product_def double_eval fl_eval)
  have f: "fits_int (Num 481) \<and> fits_int (Num 1924) \<and> trunc (val (Num 1924)) > 1920"
    by (simp add: fits_int_def double_eval)
  show ?thesis
    using scaled_output_dimensions [OF decode_4x1 a b p s, of GetData] f
    unfolding Let_def h w by simp
qed

text \<open>
  The factor \<^verbatim>\<open>1e10\<close> passes \<^verbatim>\<open>TryParseScalar\<close>, and the products 1e10 and 4e10 are no
  ints: the run leaves the defined behaviour at the conversion, before the test of the
  size.
\<close>

lemma scale_factors_1e10: "scale_factors ''1e10'' = Some (Num 10000000000, Num 10000000000)"
  by (simp add: sscanf_eval scan_eval fl_eval double_eval)

lemma huge_factor_is_not_reported:
  "TryConvertPgm up (main_scaleNn ''1e10'') (Some ''P2\<newline># c\<newline>4 1\<newline>255\<newline>1 2 3 4\<newline>'') =
     (Some (Undefined IntegerUnrepresentable), [])"
proof -
  have "read_and_set (main_scaleNn ''1e10'') ''P2\<newline># c\<newline>4 1\<newline>255\<newline>1 2 3 4\<newline>'' =
      Inl (Undefined IntegerUnrepresentable)"
    unfolding read_and_set_def decode_4x1
    by (simp add: bnd_def TrySetPgmInfo_def set_dimensions_def set_scaled_def
        scale_dimension_def parse_eval scale_factors_1e10 double_eval fl_eval char_at_def)
  then show ?thesis
    by (rule failed_run_writes_nothing)
qed

text \<open>
  Claim C6 as it is stated fails on \<^verbatim>\<open>--scaleNn 480.125x1\<close> with an image of width 4
  and height 1: the product 4 * 480.125 = 1920.5 exceeds 1920, its conversion to int is
  1920, and the run goes on with an output of width 1920.
\<close>

theorem truncated_width_counterexample:
  "factors (TryParseScalar (main_scaleNn ''480.125x1'')) = Inr (Some (Num (3841 / 8), Num 1)) \<and>
   1920 < rat_of_int 4 * (3841 / 8) \<and>
   out_dims (read_and_set (main_scaleNn ''480.125x1'') ''P2\<newline># c\<newline>4 1\<newline>255\<newline>1 2 3 4\<newline>'') = Inr (1920, 1)"
  unfolding read_and_set_def decode_4x1
  by (simp add: bnd_def TrySetPgmInfo_def set_dimensions_def set_scaled_def
      scale_dimension_def out_dims_def factors_def parse_eval scale_factors_480 double_eval fl_eval)

section \<open>The box filter\<close>


lemma row_sum_step: "cs < W \<Longrightarrow> row_sum arr r C cs W = arr r (C cs) + row_sum arr r C (cs + 1) W"
  by (simp add: row_sum_def upto_rec1)

lemma block_sum_step:
  "rs < H \<Longrightarrow> block_sum arr R C rs H W = row_sum arr (R rs) C 0 W + block_sum arr R C (rs + 1) H W"
  by (simp add: block_sum_def upto_rec1)

lemma row_sum_nonneg:
  assumes "\<forall>j. 0 \<le> j \<and> j < W \<longrightarrow> 0 \<le> arr r (C j)" and "0 \<le> cs"
  shows "0 \<le> row_sum arr r C cs W"
  unfolding row_sum_def using assms by (intro sum_list_nonneg) auto

lemma block_sum_nonneg:
  assumes "\<forall>i j. 0 \<le> i \<and> i < H \<and> 0 \<le> j \<and> j < W \<longrightarrow> 0 \<le> arr (R i) (C j)" and "0 \<le> rs"
  shows "0 \<le> block_sum arr R C rs H W"
  unfolding block_sum_def
proof (intro sum_list_nonneg)
  fix x
  assume "x \<in> set (map (\<lambda>i. row_sum arr (R i) C 0 W) [rs..H - 1])"
  then obtain i where i: "rs \<le> i" "i \<le> H - 1" and x: "x = row_sum arr (R i) C 0 W"
    by auto
  have "\<forall>j. 0 \<le> j \<and> j < W \<longrightarrow> 0 \<le> arr (R i) (C j)"
    using assms i by simp
  then show "0 \<le> x"
    unfolding x by (rule row_sum_nonneg) simp
qed

lemma box_columns_sum:
  assumes wt: "\<forall>k. in_box k (wScale sa) \<longleftrightarrow> k < W"
    and ri: "box_index row (hScale sa) rs = Inr r" "0 \<le> r" "r < 512"
    and ci: "\<forall>j. 0 \<le> j \<and> j < W \<longrightarrow> box_index col (wScale sa) j = Inr (C j) \<and> 0 \<le> C j \<and> C j < 512"
    and nn: "\<forall>j. 0 \<le> j \<and> j < W \<longrightarrow> 0 \<le> arr r (C j)"
    and wmax: "W \<le> INT_MAX"
  shows "0 \<le> cs \<Longrightarrow> cs \<le> W \<Longrightarrow> 0 \<le> dat \<Longrightarrow> dat + row_sum arr r C cs W \<le> INT_MAX \<Longrightarrow>
         0 \<le> cnt \<Longrightarrow> cnt + (W - cs) \<le> INT_MAX \<Longrightarrow>
         box_columns arr sa row col rs cs (dat, cnt)
           = Inr (dat + row_sum arr r C cs W, cnt + (W - cs))"
proof (induction "nat (W - cs)" arbitrary: cs dat cnt)
  case 0
  then have "cs = W" by simp
  then show ?case
    using wt by (subst box_columns.simps) (simp add: row_sum_def)
next
  case (Suc n)
  then have lt: "cs < W" by linarith
  have v: "0 \<le> arr r (C cs)"
    using nn Suc.prems lt by simp
  have rest: "0 \<le> row_sum arr r C (cs + 1) W"
    using nn by (rule row_sum_nonneg) (use Suc.prems in simp)
  have step: "row_sum arr r C cs W = arr r (C cs) + row_sum arr r C (cs + 1) W"
    using lt by (rule row_sum_step)
  have smp: "box_sample arr sa row col rs cs = Inr (arr r (C cs))"
    using ri ci Suc.prems lt by (simp add: box_sample_def bnd_def load_def)
  have ok: "in_int (dat + arr r (C cs)) \<and> in_int (cnt + 1) \<and> in_int (cs + 1)"
    using v rest step Suc.prems lt wmax unfolding in_int_def INT_MIN_def INT_MAX_def by linarith
  have d2: "dat + arr r (C cs) + row_sum arr r C (cs + 1) W \<le> INT_MAX"
    using Suc.prems(4) step by simp
  have ih: "box_columns arr sa row col rs (cs + 1) (dat + arr r (C cs), cnt + 1)
      = Inr (dat + arr r (C cs) + row_sum arr r C (cs + 1) W, cnt + 1 + (W - (cs + 1)))"
    using Suc.hyps(2) Suc.prems lt v d2 by (intro Suc.hyps(1)) linarith+
  show ?case
    using wt lt smp ok ih step
    by (subst box_columns.simps) simp
qed

lemma box_rows_sum:
  assumes ht: "\<forall>k. in_box k (hScale sa) \<longleftrightarrow> k < H"
    and wt: "\<forall>k. in_box k (wScale sa) \<longleftrightarrow> k < W" and wpos: "0 \<le> W"
    and ri: "\<forall>i. 0 \<le> i \<and> i < H \<longrightarrow> box_index row (hScale sa) i = Inr (R i) \<and> 0 \<le> R i \<and> R i < 512"
    and ci: "\<forall>j. 0 \<le> j \<and> j < W \<longrightarrow> box_index col (wScale sa) j = Inr (C j) \<and> 0 \<le> C j \<and> C j < 512"
    and nn: "\<forall>i j. 0 \<le> i \<and> i < H \<and> 0 \<le> j \<and> j < W \<longrightarrow> 0 \<le> arr (R i) (C j)"
    and wmax: "W \<le> INT_MAX"
  shows "0 \<le> rs \<Longrightarrow> rs \<le> H \<Longrightarrow> 0 \<le> dat \<Longrightarrow> dat + block_sum arr R C rs H W \<le> INT_MAX \<Longrightarrow>
         0 \<le> cnt \<Longrightarrow> cnt + W * (H - rs) \<le> INT_MAX \<Longrightarrow> H \<le> INT_MAX \<Longrightarrow>
         box_rows arr sa row col rs (dat, cnt)
           = Inr (dat + block_sum arr R C rs H W, cnt + W * (H - rs))"
proof (induction "nat (H - rs)" arbitrary: rs dat cnt)
  case 0
  then have "rs = H" by simp
  then show ?case
    using ht by (subst box_rows.simps) (simp add: block_sum_def)
next
  case (Suc n)
  then have lt: "rs < H" by linarith
  have r: "box_index row (hScale sa) rs = Inr (R rs)" "0 \<le> R rs" "R rs < 512"
    using ri Suc.prems lt by simp_all
  have b: "\<forall>j. 0 \<le> j \<and> j < W \<longrightarrow> 0 \<le> arr (R rs) (C j)"
    using nn Suc.prems lt by simp
  have rb: "0 \<le> row_sum arr (R rs) C 0 W"
    using b by (rule row_sum_nonneg) simp
  have rest: "0 \<le> block_sum arr R C (rs + 1) H W"
    using nn by (rule block_sum_nonneg) (use Suc.prems in simp)
  have step: "block_sum arr R C rs H W = row_sum arr (R rs) C 0 W + block_sum arr R C (rs + 1) H W"
    using lt by (rule block_sum_step)
  have m2: "W * 1 \<le> W * (H - rs)"
    using wpos lt by (intro mult_left_mono) simp_all
  have cols: "box_columns arr sa row col rs 0 (dat, cnt)
      = Inr (dat + row_sum arr (R rs) C 0 W, cnt + (W - 0))"
    using wt r ci b wmax
  proof (rule box_columns_sum)
    show "dat + row_sum arr (R rs) C 0 W \<le> INT_MAX" using Suc.prems(4) step rest by linarith
    show "cnt + (W - 0) \<le> INT_MAX" using Suc.prems m2 by simp
  qed (use Suc.prems wpos in simp_all)
  have d2: "dat + row_sum arr (R rs) C 0 W + block_sum arr R C (rs + 1) H W \<le> INT_MAX"
    using Suc.prems(4) step by simp
  have c2: "cnt + W + W * (H - (rs + 1)) \<le> INT_MAX"
    using Suc.prems(6) by (simp add: algebra_simps)
  have ih: "box_rows arr sa row col (rs + 1) (dat + row_sum arr (R rs) C 0 W, cnt + W)
      = Inr (dat + row_sum arr (R rs) C 0 W + block_sum arr R C (rs + 1) H W,
             cnt + W + W * (H - (rs + 1)))"
    using Suc.hyps(2) Suc.prems lt rb d2 c2 wpos by (intro Suc.hyps(1)) linarith+
  have ok: "in_int (rs + 1)"
    using Suc.prems lt unfolding in_int_def INT_MIN_def INT_MAX_def by linarith
  show ?case
    using ht lt cols ok ih step
    by (subst box_rows.simps) (simp add: algebra_simps)
qed

lemma box_average:
  assumes sa: "sArgs c = Some sa"
    and ht: "\<forall>k. in_box k (hScale sa) \<longleftrightarrow> k < H"
    and wt: "\<forall>k. in_box k (wScale sa) \<longleftrightarrow> k < W"
    and H: "1 \<le> H" "H \<le> 512" and W: "1 \<le> W" "W \<le> 512"
    and ri: "\<forall>i. 0 \<le> i \<and> i < H \<longrightarrow> box_index row (hScale sa) i = Inr (R i) \<and> 0 \<le> R i \<and> R i < 512"
    and ci: "\<forall>j. 0 \<le> j \<and> j < W \<longrightarrow> box_index col (wScale sa) j = Inr (C j) \<and> 0 \<le> C j \<and> C j < 512"
    and nn: "\<forall>i j. 0 \<le> i \<and> i < H \<and> 0 \<le> j \<and> j < W \<longrightarrow> 0 \<le> data c (R i) (C j)"
    and fit: "block_sum (data c) R C 0 H W \<le> INT_MAX"
  shows "GetScaledDownBoxData c row col = Inr (block_sum (data c) R C 0 H W div (H * W))"
proof -
  define S where "S = block_sum (data c) R C 0 H W"
  define n where "n = H * W"
  have n1: "1 \<le> n"
    unfolding n_def using H W by (metis mult_mono' mult_1 zero_le_one)
  have "n \<le> 512 * 512"
    unfolding n_def using H W by (intro mult_mono) simp_all
  then have nmax: "n \<le> INT_MAX"
    by (simp add: INT_MAX_def)
  have e2: "W * (H - 0) = n"
    by (simp add: n_def algebra_simps)
  have S0: "0 \<le> S"
    unfolding S_def using nn by (rule block_sum_nonneg) simp
  have SB: "S \<le> INT_MAX"
    using fit by (simp add: S_def)
  have rows: "box_rows (data c) sa row col 0 (0, 0)
      = Inr (0 + block_sum (data c) R C 0 H W, 0 + W * (H - 0))"
    using ht wt _ ri ci nn
  proof (rule box_rows_sum)
    show "0 \<le> W" using W by simp
    show "W \<le> INT_MAX" using W by (simp add: INT_MAX_def)
    show "0 + block_sum (data c) R C 0 H W \<le> INT_MAX" using SB by (simp add: S_def)
    show "0 + W * (H - 0) \<le> INT_MAX" unfolding e2 using nmax by simp
    show "H \<le> INT_MAX" using H by (simp add: INT_MAX_def)
    show "(0::int) \<le> H" using H by simp
  qed simp_all
  have q0: "0 \<le> S div n"
    using S0 n1 by (simp add: pos_imp_zdiv_nonneg_iff)
  have qS: "S div n \<le> S"
    using zdiv_mono2 [of S 1 n] S0 n1 by simp
  have sg: "sgn S * sgn n * (\<bar>S\<bar> div \<bar>n\<bar>) = S div n"
    using S0 n1 by (cases "S = 0") (simp_all add: sgn_if)
  have "c_div S n = c_int (S div n)"
    unfolding c_div_def sg using n1 by simp
  moreover have "c_int (S div n) = Inr (S div n)"
    using q0 qS SB by (simp add: c_int_def in_int_def INT_MIN_def INT_MAX_def)
  ultimately have "c_div S n = Inr (S div n)"
    by simp
  moreover have "box_rows (data c) sa row col 0 (0, 0) = Inr (S, n)"
    using rows by (simp add: S_def n_def mult.commute)
  ultimately show ?thesis
    using sa by (simp add: GetScaledDownBoxData_def S_def n_def)
qed







subsection \<open>The factor 1/2\<close>

text \<open>
  An integer below \<open>2 ^ 53\<close> is a binary64 value, so for the factor 1/2 the double
  arithmetic is exact at every cell: the sample returned is the average of the two by
  two block at \<open>(2 * row, 2 * col)\<close>.
\<close>

lemma pow2_nonneg: "0 \<le> e \<Longrightarrow> pow2 e = 2 ^ nat e"
  by (simp add: pow2_def)

lemma pow2_Suc: "0 \<le> e \<Longrightarrow> pow2 (e + 1) = 2 * pow2 e"
  by (simp add: pow2_def nat_add_distrib)

lemma expo_hi_bounds:
  "1 \<le> x \<Longrightarrow> 0 \<le> expo_hi x \<and> pow2 (expo_hi x) \<le> x \<and> x < pow2 (expo_hi x + 1)"
proof (induction x rule: expo_hi.induct)
  case (1 x)
  show ?case
  proof (cases "2 \<le> x")
    case True
    then have ih: "0 \<le> expo_hi (x / 2) \<and> pow2 (expo_hi (x / 2)) \<le> x / 2 \<and> x / 2 < pow2 (expo_hi (x / 2) + 1)"
      using "1.IH" by simp
    have e: "expo_hi x = expo_hi (x / 2) + 1"
      using True by (subst expo_hi.simps) simp
    have p1: "pow2 (expo_hi (x / 2) + 1) = 2 * pow2 (expo_hi (x / 2))"
      using ih by (intro pow2_Suc) simp
    have p2: "pow2 (expo_hi (x / 2) + 1 + 1) = 2 * pow2 (expo_hi (x / 2) + 1)"
      using ih by (intro pow2_Suc) simp
    show ?thesis
      unfolding e p2 using ih p1 by simp
  next
    case False
    then have e: "expo_hi x = 0"
      by (subst expo_hi.simps) simp
    show ?thesis
      unfolding e using False "1.prems" by (simp add: pow2_def)
  qed
qed

lemma round_even_of_int: "round_even (of_int m) = m"
  by (simp add: round_even_def)

text \<open>An integer below \<open>2 ^ 53\<close> is a binary64 value.\<close>

lemma fl_of_int:
  assumes "0 < n" and "n < 2 ^ 53"
  shows "fl (of_int n) = Num (of_int n)"
proof -
  define a :: rat where "a = of_int n"
  define e where "e = expo_hi a"
  have a1: "1 \<le> a"
    using assms by (simp add: a_def)
  have a53: "a < 2 ^ 53"
    using assms(2) unfolding a_def by (metis of_int_less_iff of_int_numeral of_int_power)
  have b: "0 \<le> e" "pow2 e \<le> a"
    using expo_hi_bounds [OF a1] by (simp_all add: e_def)
  have "(2::rat) ^ nat e < 2 ^ 53"
    using b a53 by (simp add: pow2_nonneg)
  then have "nat e < 53"
    by (rule power_less_imp_less_exp [rotated]) simp
  then have e52: "e \<le> 52"
    by linarith
  define k where "k = nat (52 - e)"
  have u: "ulp a = 1 / 2 ^ k"
  proof (cases "e = 52")
    case True
    then show ?thesis
      using a1 by (simp add: ulp_def expo_def e_def [symmetric] pow2_def k_def)
  next
    case False
    then have "e - 52 < 0"
      using e52 by simp
    then show ?thesis
      using a1 b by (simp add: ulp_def expo_def e_def [symmetric] pow2_def k_def max_def)
  qed
  have "a / ulp a = of_int (n * 2 ^ k)"
    unfolding u by (simp add: a_def)
  then have "round_even (a / ulp a) = n * 2 ^ k"
    by (simp only: round_even_of_int)
  then have "nearest a = of_int (n * 2 ^ k) * (1 / 2 ^ k)"
    unfolding nearest_def u by simp
  then have near: "nearest a = a"
    by (simp add: a_def)
  have h: "(2::rat) ^ 53 < 2 ^ 1024"
    by (rule power_strict_increasing) simp_all
  have pw: "pow2 1024 = 2 ^ 1024"
    by (simp add: pow2_def)
  have "a < pow2 1024"
    unfolding pw using a53 h by (rule less_trans)
  then show ?thesis
    using a1 near unfolding a_def [symmetric] by (simp add: fl_def)
qed


lemma trunc_of_int: "trunc (of_int m) = m"
  by (simp add: trunc_def)

lemma box_index_one_half:
  assumes "0 \<le> n" and "n < 256" and "0 \<le> k" and "k < 2"
  shows "box_index n (Num (1 / 2)) k = Inr (2 * n + k)"
proof -
  have q: "ddiv (double_of_int n) (Num (1 / 2)) = Num (of_int (2 * n))"
  proof (cases "n = 0")
    case True
    then show ?thesis
      by (simp add: ddiv_def double_of_int_def zero_of_def)
  next
    case False
    have "fl (of_int (2 * n)) = Num (of_int (2 * n))"
      using assms False by (intro fl_of_int) simp_all
    moreover have "rat_of_int n / (1 / 2) = of_int (2 * n)"
      by simp
    ultimately show ?thesis
      using False by (simp only: ddiv_def double_of_int_def Let_def val.simps is_finite.simps sign_bit.simps)
        (simp add: zero_of_def)
  qed
  have s: "dadd (Num (of_int (2 * n))) (double_of_int k) = Num (of_int (2 * n + k))"
  proof (cases "2 * n + k = 0")
    case True
    then have "n = 0 \<and> k = 0"
      using assms by linarith
    then show ?thesis
      by (simp add: dadd_def double_of_int_def zero_of_def)
  next
    case False
    have "fl (of_int (2 * n + k)) = Num (of_int (2 * n + k))"
      using assms False by (intro fl_of_int) simp_all
    moreover have "rat_of_int (2 * n) + rat_of_int k \<noteq> 0"
      using False by (metis of_int_add of_int_eq_0_iff)
    ultimately show ?thesis
      by (simp add: dadd_def double_of_int_def)
  qed
  have "trunc (of_int (2 * n + k)) = 2 * n + k"
    by (rule trunc_of_int)
  moreover have "in_int (2 * n + k)"
    using assms by (simp add: in_int_def INT_MIN_def INT_MAX_def)
  ultimately show ?thesis
    unfolding box_index_def q s by (simp only: int_of_double_def val.simps is_finite.simps) simp
qed

lemma in_box_one_half: "in_box k (Num (1 / 2)) \<longleftrightarrow> k < 2"
proof -
  have "fl (of_int 2) = Num (of_int 2)"
    by (rule fl_of_int) simp_all
  then have "ddiv (double_of_int 1) (Num (1 / 2)) = Num 2"
    by (simp add: ddiv_def double_of_int_def)
  then show ?thesis
    by (simp add: in_box_def dless_def double_of_int_def)
qed

lemma box_of_one_half:
  assumes sa: "sArgs c = Some sa" and h: "hScale sa = Num (1 / 2)" and w: "wScale sa = Num (1 / 2)"
    and r: "0 \<le> row" "row < 256" and k: "0 \<le> col" "col < 256"
    and nn: "\<forall>i j. 0 \<le> i \<and> i < 2 \<and> 0 \<le> j \<and> j < 2 \<longrightarrow> 0 \<le> data c (2 * row + i) (2 * col + j)"
    and fit: "data c (2 * row) (2 * col) + data c (2 * row) (2 * col + 1)
              + data c (2 * row + 1) (2 * col) + data c (2 * row + 1) (2 * col + 1) \<le> INT_MAX"
  shows "GetScaledDownBoxData c row col =
           Inr ((data c (2 * row) (2 * col) + data c (2 * row) (2 * col + 1)
                 + data c (2 * row + 1) (2 * col) + data c (2 * row + 1) (2 * col + 1)) div 4)"
proof -
  have b: "block_sum (data c) (\<lambda>i. 2 * row + i) (\<lambda>j. 2 * col + j) 0 2 2 =
      data c (2 * row) (2 * col) + data c (2 * row) (2 * col + 1)
      + data c (2 * row + 1) (2 * col) + data c (2 * row + 1) (2 * col + 1)"
    by (simp add: block_sum_def row_sum_def upto.simps)
  have "GetScaledDownBoxData c row col =
      Inr (block_sum (data c) (\<lambda>i. 2 * row + i) (\<lambda>j. 2 * col + j) 0 2 2 div (2 * 2))"
    using sa
  proof (rule box_average)
    show "\<forall>k. in_box k (hScale sa) \<longleftrightarrow> k < 2" and "\<forall>k. in_box k (wScale sa) \<longleftrightarrow> k < 2"
      unfolding h w by (simp_all add: in_box_one_half)
    show "\<forall>i. 0 \<le> i \<and> i < 2 \<longrightarrow> box_index row (hScale sa) i = Inr (2 * row + i) \<and>
        0 \<le> 2 * row + i \<and> 2 * row + i < 512"
      unfolding h using r by (auto simp: box_index_one_half)
    show "\<forall>j. 0 \<le> j \<and> j < 2 \<longrightarrow> box_index col (wScale sa) j = Inr (2 * col + j) \<and>
        0 \<le> 2 * col + j \<and> 2 * col + j < 512"
      unfolding w using k by (auto simp: box_index_one_half)
    show "\<forall>i j. 0 \<le> i \<and> i < 2 \<and> 0 \<le> j \<and> j < 2 \<longrightarrow> 0 \<le> data c (2 * row + i) (2 * col + j)"
      using nn .
    show "block_sum (data c) (\<lambda>i. 2 * row + i) (\<lambda>j. 2 * col + j) 0 2 2 \<le> INT_MAX"
      unfolding b using fit .
  qed simp_all
  then show ?thesis
    unfolding b by simp
qed


subsection \<open>Rounding, and the floor of the claim\<close>

text \<open>
  Where the double arithmetic is not exact the theorem does not apply. For the scale text
  \<^verbatim>\<open>1/49\<close> the factor stored is the double below 1/49 and its reciprocal, computed in
  double, is above 49: the loop test still holds at 49, a fiftieth turn is made, and for
  the output column 4 this turn reads the column 245, which an image 245 samples wide
  does not have.
\<close>

lemma scale_factors_49th:
  "scale_factors ''1/49'' =
     Some (Num (5882252574524729 / 288230376151711744), Num (5882252574524729 / 288230376151711744))"
  by (simp add: sscanf_eval scan_eval fl_eval double_eval)

lemma fiftieth_turn_of_one_49th:
  "in_box 49 (Num (5882252574524729 / 288230376151711744)) \<and> \<not> 49 < \<lceil>1 / (1 / 49 :: rat)\<rceil> \<and>
   box_index 4 (Num (5882252574524729 / 288230376151711744)) 49 = Inr 245"
  by (simp add: in_box_def box_index_def double_eval fl_eval)


section \<open>The samples of a decoded raster\<close>

subsection \<open>A conversion and the bytes behind its input\<close>

text \<open>
  A conversion that ends before the end of the input has read nothing of what follows:
  with more bytes appended it gives the same value and leaves these bytes unread as
  well. A conversion never clears the end-of-file indicator.
\<close>

lemma read_while_flag: "snd s \<Longrightarrow> snd (snd (read_while p s))"
  by (simp add: read_while_def split: list.splits)

lemma read_while_result: "read_while p s = (tok, (r, e)) \<Longrightarrow> e \<or> r \<noteq> []"
  by (auto simp: read_while_def split: list.splits)

lemma read_while_append:
  assumes "read_while p (bs, e) = (tok, (r, e'))" and "r \<noteq> []"
  shows "read_while p (bs @ x, e) = (tok, (r @ x, e'))"
proof -
  have d: "dropWhile p bs = r" and e: "e' = e" and t: "tok = takeWhile p bs"
    using assms by (auto simp: read_while_def split: list.splits)
  obtain c r' where r: "r = c # r'"
    using assms(2) by (cases r) auto
  have c: "c \<in> set bs" "\<not> p c"
    using d r by (metis list.set_intros(1) set_dropWhileD, metis hd_dropWhile list.sel(1) list.distinct(1))
  have "takeWhile p (bs @ x) = takeWhile p bs" and "dropWhile p (bs @ x) = dropWhile p bs @ x"
    using c by (simp_all add: takeWhile_append1 dropWhile_append1)
  then show ?thesis
    using d e t r by (simp add: read_while_def)
qed

lemma skip_space_append:
  assumes "skip_space (bs, e) = (r, e')" and "r \<noteq> []"
  shows "skip_space (bs @ x, e) = (r @ x, e')"
proof -
  obtain tok where "read_while isspace (bs, e) = (tok, (r, e'))"
    using assms(1) by (cases "read_while isspace (bs, e)") (auto simp: skip_space_def)
  then have "read_while isspace (bs @ x, e) = (tok, (r @ x, e'))"
    using assms(2) by (rule read_while_append)
  then show ?thesis
    by (simp add: skip_space_def)
qed

lemma skip_space_keeps: "skip_space (bs, e) = (r, e') \<Longrightarrow> r \<noteq> [] \<Longrightarrow> e' = e"
  by (auto simp: skip_space_def read_while_def split: list.splits)

lemma read_sign_append:
  assumes "read_sign (bs, e) = (neg, (r, e'))" and "bs \<noteq> []"
  shows "read_sign (bs @ x, e) = (neg, (r @ x, e'))"
  using assms by (cases bs) (auto simp: read_sign_def split: if_splits)

lemma read_sign_keeps: "read_sign (bs, e) = (neg, (r, e')) \<Longrightarrow> e' = e"
  by (cases bs) (auto simp: read_sign_def split: if_splits)

lemma scan_integer_append:
  assumes h: "scan_integer neg (bs, False) = Converted v (r, False)"
  shows "scan_integer neg (bs @ x, False) = Converted v (r @ x, False)"
proof (cases bs)
  case Nil
  then show ?thesis
    using h by (simp add: scan_integer_def)
next
  case (Cons c rr)
  have rr: "rr \<noteq> []"
  proof
    assume "rr = []"
    then show False
      using h Cons by (auto simp: scan_integer_def read_while_def isoctal_def split: if_splits)
  qed
  then have hd: "hd (rr @ x) = hd rr" and tl: "tl (rr @ x) = tl rr @ x"
    by simp_all
  show ?thesis
  proof (cases "c = CHR ''0'' \<and> tolower (hd rr) = CHR ''x''")
    case True
    obtain ds where w: "read_while isxdigit (tl rr, False) = (ds, (r, False))" and ds: "ds \<noteq> []"
      and v: "v = (if neg then - number 16 ds else number 16 ds)"
      using h Cons rr True
      by (cases "read_while isxdigit (tl rr, False)") (auto simp: scan_integer_def split: if_splits)
    have "r \<noteq> []"
      using read_while_result [OF w] by simp
    then have "read_while isxdigit (tl rr @ x, False) = (ds, (r @ x, False))"
      using w by (intro read_while_append)
    then show ?thesis
      using Cons rr True ds v by (simp add: scan_integer_def)
  next
    case nhex: False
    show ?thesis
    proof (cases "c = CHR ''0''")
      case True
      obtain ds where w: "read_while isoctal (bs, False) = (ds, (r, False))"
        and v: "v = (if neg then - number 8 ds else number 8 ds)"
        using h Cons rr True nhex
        by (cases "read_while isoctal (bs, False)") (auto simp: scan_integer_def split: if_splits)
      have "r \<noteq> []"
        using read_while_result [OF w] by simp
      then have "read_while isoctal (bs @ x, False) = (ds, (r @ x, False))"
        using w by (intro read_while_append)
      then show ?thesis
        using Cons rr True nhex v by (simp add: scan_integer_def)
    next
      case False
      obtain ds where w: "read_while isdigit (bs, False) = (ds, (r, False))" and ds: "ds \<noteq> []"
        and v: "v = (if neg then - number 10 ds else number 10 ds)"
        using h Cons rr False
        by (cases "read_while isdigit (bs, False)") (auto simp: scan_integer_def split: if_splits)
      have "r \<noteq> []"
        using read_while_result [OF w] by simp
      then have "read_while isdigit (bs @ x, False) = (ds, (r @ x, False))"
        using w by (intro read_while_append)
      then show ?thesis
        using Cons rr False ds v by (simp add: scan_integer_def)
    qed
  qed
qed

lemma scan_i_append:
  assumes h: "scan_i (bs, False) = Converted v (r, False)"
  shows "scan_i (bs @ x, False) = Converted v (r @ x, False)"
proof -
  obtain r1 e1 where s1: "skip_space (bs, False) = (r1, e1)"
    by (cases "skip_space (bs, False)") auto
  have r1: "r1 \<noteq> []"
    using h s1 by (auto simp: scan_i_def)
  have e1: "e1 = False"
    using s1 r1 by (rule skip_space_keeps)
  have s1': "skip_space (bs @ x, False) = (r1 @ x, False)"
    using skip_space_append [OF s1 r1] e1 by simp
  obtain neg r2 e2 where s2: "read_sign (r1, False) = (neg, (r2, e2))"
    by (cases "read_sign (r1, False)") auto
  have e2: "e2 = False"
    using s2 by (rule read_sign_keeps)
  have s2': "read_sign (r1 @ x, False) = (neg, (r2 @ x, False))"
    using read_sign_append [OF s2 r1] e2 by simp
  have "scan_integer neg (r2, False) = Converted v (r, False)"
    using h s1 r1 e1 s2 e2 by (simp add: scan_i_def)
  then have "scan_integer neg (r2 @ x, False) = Converted v (r @ x, False)"
    by (rule scan_integer_append)
  then show ?thesis
    using s1' r1 s2' by (simp add: scan_i_def)
qed

lemma scan_integer_flag: "scan_integer neg (bs, True) = Converted v s1 \<Longrightarrow> snd s1"
  by (auto simp: scan_integer_def read_while_def split: list.splits if_splits prod.splits)

lemma scan_i_flag: "scan_i (bs, True) = Converted v s1 \<Longrightarrow> snd s1"
proof -
  assume h: "scan_i (bs, True) = Converted v s1"
  obtain r1 e1 where s1: "skip_space (bs, True) = (r1, e1)"
    by (cases "skip_space (bs, True)") auto
  have r1: "r1 \<noteq> []"
    using h s1 by (auto simp: scan_i_def)
  have e1: "e1 = True"
    using s1 r1 by (rule skip_space_keeps)
  obtain neg r2 e2 where s2: "read_sign (r1, True) = (neg, (r2, e2))"
    by (cases "read_sign (r1, True)") auto
  have e2: "e2 = True"
    using s2 by (rule read_sign_keeps)
  have "scan_integer neg (r2, True) = Converted v s1"
    using h s1 r1 e1 s2 e2 by (simp add: scan_i_def)
  then show ?thesis
    by (rule scan_integer_flag)
qed

lemma scan_integer_result: "scan_integer neg s = Converted v (r, e) \<Longrightarrow> e \<or> r \<noteq> []"
  by (auto simp: scan_integer_def read_while_def split: list.splits if_splits prod.splits)

lemma scan_i_result: "scan_i s = Converted v (r, e) \<Longrightarrow> e \<or> r \<noteq> []"
  by (auto simp: scan_i_def dest: scan_integer_result split: if_splits prod.splits)

lemma skip_space_empty:
  assumes "fst (skip_space s) = []"
  shows "snd (skip_space s)"
proof (cases "dropWhile isspace (fst s)")
  case Nil
  then show ?thesis
    by (simp add: skip_space_def read_while_def del: dropWhile_eq_Nil_conv)
next
  case (Cons c r)
  then have "fst (skip_space s) = c # r"
    by (simp add: skip_space_def read_while_def del: dropWhile_eq_Nil_conv)
  then show ?thesis
    using assms by simp
qed

lemma scan_integer_no_input_failure: "scan_integer neg s \<noteq> InputFailure s1"
  by (auto simp: scan_integer_def split: list.splits prod.splits)

lemma scan_i_input_failure: "scan_i s = InputFailure s1 \<Longrightarrow> snd s1"
  using skip_space_empty [of s]
  by (auto simp: scan_i_def scan_integer_no_input_failure split: if_splits prod.splits)

lemma read_sample_append:
  assumes "read_sample t dat (bs, False) = Inr (v, (r, False))"
  shows "read_sample t dat (bs @ x, False) = Inr (v, (r @ x, False))"
proof (cases t)
  case UNKNOWN
  then show ?thesis
    using assms by (simp add: read_sample_def)
next
  case P5
  then show ?thesis
    using assms by (cases bs) (auto simp: read_sample_def fgetc_def)
next
  case P2
  have c: "scan_i (bs, False) = Converted v (r, False) \<and> in_int v"
    using assms P2
    by (cases "scan_i (bs, False)")
      (auto simp: read_sample_def fscanf_i_def EOF_def dest: scan_i_input_failure split: if_splits)
  then have "scan_i (bs @ x, False) = Converted v (r @ x, False)"
    by (intro scan_i_append) simp
  then show ?thesis
    using c P2 by (simp add: read_sample_def fscanf_i_def)
qed

lemma read_sample_flag:
  assumes "read_sample t dat (bs, True) = Inr (v, s1)"
  shows "snd s1"
proof (cases t)
  case UNKNOWN
  then show ?thesis
    using assms by (auto simp: read_sample_def)
next
  case P5
  then show ?thesis
    using assms by (cases bs) (auto simp: read_sample_def fgetc_def)
next
  case P2
  show ?thesis
  proof (cases "scan_i (bs, True)")
    case (Converted v' s')
    then show ?thesis
      using assms P2 scan_i_flag [OF Converted]
      by (auto simp: read_sample_def fscanf_i_def split: if_splits)
  next
    case (MatchingFailure s')
    then show ?thesis
      using assms P2 by (auto simp: read_sample_def fscanf_i_def)
  next
    case (InputFailure s')
    then show ?thesis
      using assms P2 scan_i_input_failure [OF InputFailure]
      by (auto simp: read_sample_def fscanf_i_def EOF_def split: if_splits)
  qed
qed

text \<open>One turn of the inner loop.\<close>

lemma read_columns_done:
  "\<not> column < width f \<Longrightarrow> read_columns f row column st = Inr st' \<Longrightarrow> st' = st"
  by (cases st) (simp add: read_columns.simps)

lemma read_columns_turn:
  assumes "column < width f" and "read_columns f row column (dat, cnt, arr, s) = Inr st'"
  obtains dat1 s1 where "read_sample (type f) dat s = Inr (dat1, s1)" and "feof s1"
      and "st' = (dat1, cnt, arr, s1)"
  | dat1 s1 where "read_sample (type f) dat s = Inr (dat1, s1)" and "\<not> feof s1"
      and "0 \<le> dat1" and "dat1 \<le> maxDataValue f"
      and "0 \<le> row" and "row < 512" and "0 \<le> column" and "column < 512"
      and "read_columns f row (column + 1) (dat1, cnt + 1, arr(row := (arr row)(column := dat1)), s1)
           = Inr st'"
proof (cases "read_sample (type f) dat s")
  case (Inl e)
  then show ?thesis
    using assms by (simp add: read_columns.simps [of f row column])
next
  case (Inr p)
  obtain dat1 s1 where p: "p = (dat1, s1)"
    by (cases p) auto
  show ?thesis
  proof (cases "feof s1")
    case True
    then show ?thesis
      using assms Inr p that(1) by (simp add: read_columns.simps [of f row column])
  next
    case False
    then show ?thesis
      using assms Inr p that(2) [of dat1 s1]
      by (auto simp: read_columns.simps [of f row column] store_def split: if_splits)
  qed
qed

subsection \<open>The inner loop\<close>

lemma read_columns_flag:
  assumes "read_columns f row column (dat, cnt, arr, (bs, True)) = Inr (dat', cnt', arr', s')"
  shows "snd s'"
proof (cases "column < width f")
  case False
  then show ?thesis
    using read_columns_done [OF False assms] by simp
next
  case True
  from True assms show ?thesis
  proof (cases rule: read_columns_turn)
    case (1 dat1 s1)
    then show ?thesis by (simp add: feof_def)
  next
    case (2 dat1 s1)
    then show ?thesis
      using read_sample_flag [of "type f" dat bs dat1 s1] by (simp add: feof_def)
  qed
qed

lemma read_columns_count:
  "read_columns f row column (dat, cnt, arr, s) = Inr (dat', cnt', arr', s') \<Longrightarrow> column \<le> width f \<Longrightarrow>
   cnt \<le> cnt' \<and> cnt' \<le> cnt + (width f - column) \<and>
   (feof s' \<and> \<not> feof s \<longrightarrow> cnt' < cnt + (width f - column))"
proof (induction "nat (width f - column)" arbitrary: column dat cnt arr s)
  case 0
  then have "\<not> column < width f" by simp
  then have "(dat', cnt', arr', s') = (dat, cnt, arr, s)"
    using read_columns_done "0.prems"(1) by blast
  then show ?case
    using "0.prems"(2) by simp
next
  case (Suc n)
  then have lt: "column < width f" by linarith
  from lt Suc.prems(1) show ?case
  proof (cases rule: read_columns_turn)
    case (1 dat1 s1)
    then show ?thesis using lt by simp
  next
    case (2 dat1 s1)
    have "cnt + 1 \<le> cnt' \<and> cnt' \<le> cnt + 1 + (width f - (column + 1)) \<and>
      (feof s' \<and> \<not> feof s1 \<longrightarrow> cnt' < cnt + 1 + (width f - (column + 1)))"
      using Suc.hyps(2) lt by (intro Suc.hyps(1) [OF _ 2(9)]) linarith+
    then show ?thesis
      using 2(2) by auto
  qed
qed


lemma read_columns_append:
  "read_columns f row column (dat, cnt, arr, (bs, False)) = Inr (dat', cnt', arr', (r, False)) \<Longrightarrow>
   read_columns f row column (dat, cnt, arr, (bs @ x, False)) = Inr (dat', cnt', arr', (r @ x, False))"
proof (induction "nat (width f - column)" arbitrary: column dat cnt arr bs)
  case 0
  then have n: "\<not> column < width f" by simp
  then have "(dat', cnt', arr', (r, False)) = (dat, cnt, arr, (bs, False))"
    using read_columns_done "0.prems"(1) by blast
  then show ?case
    using n by (simp add: read_columns.simps [of f row column])
next
  case (Suc n)
  then have lt: "column < width f" by linarith
  from lt Suc.prems(1) show ?case
  proof (cases rule: read_columns_turn)
    case (1 dat1 s1)
    then show ?thesis by (auto simp: feof_def)
  next
    case (2 dat1 s1)
    obtain r1 where s1: "s1 = (r1, False)"
      using 2(2) by (cases s1) (auto simp: feof_def)
    have smp: "read_sample (type f) dat (bs @ x, False) = Inr (dat1, (r1 @ x, False))"
      using 2(1) s1 by (intro read_sample_append) simp
    have "read_columns f row (column + 1)
        (dat1, cnt + 1, arr(row := (arr row)(column := dat1)), (r1 @ x, False))
        = Inr (dat', cnt', arr', (r @ x, False))"
      using Suc.hyps(2) lt 2(9) s1 by (intro Suc.hyps(1)) (linarith, simp)
    then show ?thesis
      using lt smp 2(3-8)
      by (subst read_columns.simps) (simp add: feof_def store_def)
  qed
qed

subsection \<open>The outer loop\<close>

lemma read_rows_done:
  "\<not> row < height f \<Longrightarrow> read_rows f row st = Inr st' \<Longrightarrow> st' = st"
  by (simp add: read_rows.simps [of f row])

lemma read_rows_turn:
  assumes "row < height f" and "read_rows f row st = Inr st'"
  obtains st1 where "read_columns f row 0 st = Inr st1" and "read_rows f (row + 1) st1 = Inr st'"
  using assms by (cases "read_columns f row 0 st") (simp_all add: read_rows.simps [of f row])

lemma read_rows_flag:
  "read_rows f row (dat, cnt, arr, (bs, True)) = Inr (dat', cnt', arr', s') \<Longrightarrow> snd s'"
proof (induction "nat (height f - row)" arbitrary: row dat cnt arr bs)
  case 0
  then have "\<not> row < height f" by simp
  then have "(dat', cnt', arr', s') = (dat, cnt, arr, (bs, True))"
    using read_rows_done "0.prems" by blast
  then show ?case by simp
next
  case (Suc n)
  then have lt: "row < height f" by linarith
  from lt Suc.prems show ?case
  proof (cases rule: read_rows_turn)
    case (1 st1)
    obtain d1 c1 a1 s1 where st1: "st1 = (d1, c1, a1, s1)"
      by (cases st1) auto
    have "snd s1"
      using 1(1) st1 by (intro read_columns_flag [of f row 0 dat cnt arr bs d1 c1 a1 s1]) simp
    then obtain b1 where s1: "s1 = (b1, True)"
      by (cases s1) auto
    show ?thesis
      using Suc.hyps(2) lt 1(2) st1 s1 by (intro Suc.hyps(1) [of "row + 1" d1 c1 a1 b1]) (linarith, simp)
  qed
qed

lemma read_rows_count:
  "read_rows f row (dat, cnt, arr, s) = Inr (dat', cnt', arr', s') \<Longrightarrow> row \<le> height f \<Longrightarrow> 0 \<le> width f \<Longrightarrow>
   cnt \<le> cnt' \<and> cnt' \<le> cnt + (height f - row) * width f \<and>
   (feof s' \<and> \<not> feof s \<longrightarrow> cnt' < cnt + (height f - row) * width f)"
proof (induction "nat (height f - row)" arbitrary: row dat cnt arr s)
  case 0
  then have "\<not> row < height f" by simp
  then have "(dat', cnt', arr', s') = (dat, cnt, arr, s)"
    using read_rows_done "0.prems"(1) by blast
  moreover have "0 \<le> (height f - row) * width f"
    using "0.prems"(2,3) by simp
  ultimately show ?case by simp
next
  case (Suc n)
  then have lt: "row < height f" by linarith
  from lt Suc.prems(1) show ?case
  proof (cases rule: read_rows_turn)
    case (1 st1)
    obtain d1 c1 a1 s1 where st1: "st1 = (d1, c1, a1, s1)"
      by (cases st1) auto
    have c: "cnt \<le> c1 \<and> c1 \<le> cnt + (width f - 0) \<and> (feof s1 \<and> \<not> feof s \<longrightarrow> c1 < cnt + (width f - 0))"
      using 1(1) st1 Suc.prems(3) by (intro read_columns_count [of f row 0 dat cnt arr s d1 c1 a1 s1]) simp_all
    have r: "c1 \<le> cnt' \<and> cnt' \<le> c1 + (height f - (row + 1)) * width f \<and>
      (feof s' \<and> \<not> feof s1 \<longrightarrow> cnt' < c1 + (height f - (row + 1)) * width f)"
      using Suc.hyps(2) lt 1(2) st1 Suc.prems(3)
      by (intro Suc.hyps(1) [of "row + 1" d1 c1 a1 s1]) (linarith, simp, linarith, simp)
    have e: "(height f - row) * width f = width f + (height f - (row + 1)) * width f"
      by (simp add: algebra_simps)
    show ?thesis
      unfolding e using c r by auto
  qed
qed


lemma read_rows_append:
  "read_rows f row (dat, cnt, arr, (bs, False)) = Inr (dat', cnt', arr', (r, False)) \<Longrightarrow>
   read_rows f row (dat, cnt, arr, (bs @ x, False)) = Inr (dat', cnt', arr', (r @ x, False))"
proof (induction "nat (height f - row)" arbitrary: row dat cnt arr bs)
  case 0
  then have n: "\<not> row < height f" by simp
  then have "(dat', cnt', arr', (r, False)) = (dat, cnt, arr, (bs, False))"
    using read_rows_done "0.prems"(1) by blast
  then show ?case
    using n by (simp add: read_rows.simps [of f row])
next
  case (Suc n)
  then have lt: "row < height f" by linarith
  from lt Suc.prems(1) show ?case
  proof (cases rule: read_rows_turn)
    case (1 st1)
    obtain d1 c1 a1 b1 e1 where st1: "st1 = (d1, c1, a1, (b1, e1))"
      by (cases st1) auto
    have e1: "e1 = False"
    proof (rule ccontr)
      assume "e1 \<noteq> False"
      then have "read_rows f (row + 1) (d1, c1, a1, (b1, True)) = Inr (dat', cnt', arr', (r, False))"
        using 1(2) st1 by simp
      then show False
        using read_rows_flag by fastforce
    qed
    have "read_columns f row 0 (dat, cnt, arr, (bs @ x, False)) = Inr (d1, c1, a1, (b1 @ x, False))"
      using 1(1) st1 e1 by (intro read_columns_append) simp
    moreover have "read_rows f (row + 1) (d1, c1, a1, (b1 @ x, False)) = Inr (dat', cnt', arr', (r @ x, False))"
      using Suc.hyps(2) lt 1(2) st1 e1 by (intro Suc.hyps(1)) (linarith, simp)
    ultimately show ?thesis
      using lt by (subst read_rows.simps) simp
  qed
qed

lemma read_rows_no_columns:
  "width f \<le> 0 \<Longrightarrow> read_rows f row st = Inr st' \<Longrightarrow> st' = st"
proof (induction "nat (height f - row)" arbitrary: row st)
  case 0
  then have "\<not> row < height f" by simp
  then show ?case
    using read_rows_done "0.prems"(2) by blast
next
  case (Suc n)
  then have lt: "row < height f" by linarith
  from lt Suc.prems(2) show ?case
  proof (cases rule: read_rows_turn)
    case (1 st1)
    have "st1 = st"
      using read_columns_done [OF _ 1(1)] Suc.prems(1) by simp
    then show ?thesis
      using Suc.hyps(2) lt 1(2) Suc.prems(1) by (intro Suc.hyps(1) [of "row + 1"]) (linarith, simp_all)
  qed
qed

subsection \<open>Samples out of range\<close>









lemma TryReadPgmData_parts:
  assumes "TryReadPgmData c s = Inr (c', s')"
  obtains dat cnt arr s1 where "read_rows (iF c) 0 (0, 0, data c, s) = Inr (dat, cnt, arr, s1)"
    and "check_count (iF c) cnt s1 = Inr s'" and "c' = c\<lparr>data := arr\<rparr>"
proof (cases "read_rows (iF c) 0 (0, 0, data c, s)")
  case (Inl e)
  then show ?thesis
    using assms by (simp add: TryReadPgmData_def)
next
  case (Inr st)
  obtain dat cnt arr s1 where st: "st = (dat, cnt, arr, s1)"
    by (cases st) auto
  show ?thesis
    using assms Inr st that [of dat cnt arr s1]
    by (cases "check_count (iF c) cnt s1") (simp_all add: TryReadPgmData_def)
qed

lemma check_count_full: "check_count f cnt s = Inr s' \<Longrightarrow> cnt = width f * height f"
  by (auto simp: check_count_def c_int_def split: if_splits)





subsection \<open>Bytes after the last sample\<close>

lemma decoded_without_end:
  assumes rows: "read_rows f 0 (0, 0, arr0, (bs, False)) = Inr (dat, cnt, arr, s1)"
    and full: "cnt = width f * height f"
  shows "\<not> snd s1"
proof (cases "width f \<le> 0")
  case True
  then show ?thesis
    using read_rows_no_columns [OF True rows] by simp
next
  case w: False
  show ?thesis
  proof (cases "0 \<le> height f")
    case False
    then have "\<not> 0 < height f" by simp
    then show ?thesis
      using read_rows_done rows by fastforce
  next
    case True
    have "feof s1 \<and> \<not> feof (bs, False) \<longrightarrow> cnt < 0 + (height f - 0) * width f"
      using read_rows_count [OF rows] True w by simp
    then show ?thesis
      using full by (simp add: feof_def mult.commute)
  qed
qed

text \<open>
  Claim C9. When \<^verbatim>\<open>TryReadPgmData\<close> succeeds on an ASCII body, it succeeds with the same
  raster on this body followed by any further bytes, which stay unread: the test that
  the stream is at its end is made for the binary encoding only, where the same further
  bytes make the decode fail.
\<close>

theorem trailing_bytes:
  assumes ok: "TryReadPgmData c (bytes, False) = Inr (c', s')"
  shows "(type (iF c) = P2 \<longrightarrow>
            TryReadPgmData c (bytes @ extra, False) = Inr (c', (fst s' @ extra, snd s'))) \<and>
         (type (iF c) = P5 \<and> extra \<noteq> [] \<longrightarrow>
            TryReadPgmData c (bytes @ extra, False) = Inl (Reported CorruptedInputFile))"
proof -
  from ok obtain dat cnt arr s1 where rows: "read_rows (iF c) 0 (0, 0, data c, (bytes, False)) = Inr (dat, cnt, arr, s1)"
    and chk: "check_count (iF c) cnt s1 = Inr s'" and c': "c' = c\<lparr>data := arr\<rparr>"
    by (rule TryReadPgmData_parts)
  have full: "cnt = width (iF c) * height (iF c)"
    using chk by (rule check_count_full)
  have "\<not> snd s1"
    using rows full by (rule decoded_without_end)
  then obtain r1 where s1: "s1 = (r1, False)"
    by (cases s1) auto
  have rows': "read_rows (iF c) 0 (0, 0, data c, (bytes @ extra, False)) = Inr (dat, cnt, arr, (r1 @ extra, False))"
    using rows s1 by (intro read_rows_append) simp
  have ascii: "TryReadPgmData c (bytes @ extra, False) = Inr (c', (fst s' @ extra, snd s'))"
    if "type (iF c) = P2"
    using that chk s1 rows' c' by (auto simp: TryReadPgmData_def check_count_def split: if_splits sum.splits)
  have binary: "TryReadPgmData c (bytes @ extra, False) = Inl (Reported CorruptedInputFile)"
    if t: "type (iF c) = P5" and x: "extra \<noteq> []"
  proof -
    have "r1 = []"
      using t chk s1 by (cases r1) (auto simp: check_count_def fgetc_def EOF_def split: if_splits)
    moreover obtain e es where "extra = e # es"
      using x by (cases extra) auto
    ultimately show ?thesis
      using t rows' by (simp add: TryReadPgmData_def check_count_def fgetc_def EOF_def)
  qed
  show ?thesis
    using ascii binary by blast
qed

text \<open>
  The ASCII body \<^verbatim>\<open>1 2\<close> with and without the text \<^verbatim>\<open>and more\<close> behind it, and the
  binary body \<^verbatim>\<open>ab\<close> with and without one more byte.
\<close>

theorem trailing_bytes_witness:
  "TryReadPgmData (main_P2toP5\<lparr>iF := \<lparr>width = 2, height = 1, maxDataValue = 255, type = P2\<rparr>\<rparr>) (''1 2 '', False)
     = Inr (main_P2toP5\<lparr>iF := \<lparr>width = 2, height = 1, maxDataValue = 255, type = P2\<rparr>,
                      data := (\<lambda>r c. 0)(0 := (\<lambda>c. 0)(0 := 1, 1 := 2))\<rparr>, ('' '', False)) \<and>
   TryReadPgmData (main_P2toP5\<lparr>iF := \<lparr>width = 2, height = 1, maxDataValue = 255, type = P2\<rparr>\<rparr>) (''1 2 and more'', False)
     = Inr (main_P2toP5\<lparr>iF := \<lparr>width = 2, height = 1, maxDataValue = 255, type = P2\<rparr>,
                      data := (\<lambda>r c. 0)(0 := (\<lambda>c. 0)(0 := 1, 1 := 2))\<rparr>, ('' and more'', False)) \<and>
   TryReadPgmData (main_P5toP2\<lparr>iF := \<lparr>width = 2, height = 1, maxDataValue = 255, type = P5\<rparr>\<rparr>) (''ab'', False)
     = Inr (main_P5toP2\<lparr>iF := \<lparr>width = 2, height = 1, maxDataValue = 255, type = P5\<rparr>,
                        data := (\<lambda>r c. 0)(0 := (\<lambda>c. 0)(0 := 97, 1 := 98))\<rparr>, ([], True)) \<and>
   TryReadPgmData (main_P5toP2\<lparr>iF := \<lparr>width = 2, height = 1, maxDataValue = 255, type = P5\<rparr>\<rparr>) (''abc'', False)
     = Inl (Reported CorruptedInputFile)"
proof -
  let ?a = "main_P2toP5\<lparr>iF := \<lparr>width = 2, height = 1, maxDataValue = 255, type = P2\<rparr>\<rparr>"
  let ?a' = "main_P2toP5\<lparr>iF := \<lparr>width = 2, height = 1, maxDataValue = 255, type = P2\<rparr>,
                      data := (\<lambda>r c. 0)(0 := (\<lambda>c. 0)(0 := 1, 1 := 2))\<rparr>"
  let ?b = "main_P5toP2\<lparr>iF := \<lparr>width = 2, height = 1, maxDataValue = 255, type = P5\<rparr>\<rparr>"
  let ?b' = "main_P5toP2\<lparr>iF := \<lparr>width = 2, height = 1, maxDataValue = 255, type = P5\<rparr>,
                        data := (\<lambda>r c. 0)(0 := (\<lambda>c. 0)(0 := 97, 1 := 98))\<rparr>"
  have ta: "type (iF ?a) = P2" and tb: "type (iF ?b) = P5"
    by simp_all
  have oka: "TryReadPgmData ?a (''1 2 '', False) = Inr (?a', ('' '', False))"
    by (simp add: loop_eval scan_eval)
  have okb: "TryReadPgmData ?b (''ab'', False) = Inr (?b', ([], True))"
    by (simp add: loop_eval)
  have a: "TryReadPgmData ?a (''1 2 '' @ ''and more'', False) = Inr (?a', (fst ('' '', False) @ ''and more'', snd ('' '', False)))"
    using trailing_bytes [OF oka, of "''and more''"] ta by blast
  have b: "TryReadPgmData ?b (''ab'' @ ''c'', False) = Inl (Reported CorruptedInputFile)"
    using trailing_bytes [OF okb, of "''c''"] tb by blast
  show ?thesis
    using oka okb a b by simp
qed

end
